theory Spec2Isabelle
  imports
    Main
    "HOL-Library.Char_ord"
    "HOL-Library.List_Lexorder"
    "HOL-Library.Product_Lexorder"
    "HOL-Library.AList"
    "HOL-Library.Sublist"
begin

section \<open>Python values\<close>

text \<open>
  The scripts read JSON objects with \<^verbatim>\<open>dict.get\<close>. A key of a JSON object is absent,
  present with \<^verbatim>\<open>null\<close>, or present with a value; the three cases behave differently
  under \<^verbatim>\<open>d.get(k)\<close> and \<^verbatim>\<open>d.get(k, default)\<close>.
\<close>

datatype 'a field = Absent | Null | Val 'a

text \<open>A cell of a DataFrame row: Python's \<^verbatim>\<open>None\<close>, a \<^verbatim>\<open>str\<close> or an \<^verbatim>\<open>int\<close>.\<close>

datatype cell = CNone | CStr string | CInt int

text \<open>\<^verbatim>\<open>d.get(k)\<close> and \<^verbatim>\<open>d.get(k, default)\<close> on a string-valued key.\<close>

fun py_get :: "string field \<Rightarrow> cell" where
  "py_get Absent = CNone"
| "py_get Null = CNone"
| "py_get (Val s) = CStr s"

fun py_get_default :: "string field \<Rightarrow> cell \<Rightarrow> cell" where
  "py_get_default Absent d = d"
| "py_get_default Null d = CNone"
| "py_get_default (Val s) d = CStr s"

fun py_get_int :: "int field \<Rightarrow> cell \<Rightarrow> cell" where
  "py_get_int Absent d = d"
| "py_get_int Null d = CNone"
| "py_get_int (Val n) d = CInt n"

text \<open>Python truthiness (\<^verbatim>\<open>if url\<close>, \<^verbatim>\<open>a or b\<close>).\<close>

fun truthy :: "cell \<Rightarrow> bool" where
  "truthy CNone = False"
| "truthy (CStr s) = (s \<noteq> [])"
| "truthy (CInt n) = (n \<noteq> 0)"

text \<open>\<^verbatim>\<open>', '.join(xs)\<close> on a list of strings.\<close>

fun join_comma :: "string list \<Rightarrow> string" where
  "join_comma [] = []"
| "join_comma [s] = s"
| "join_comma (s # t # ts) = s @ '', '' @ join_comma (t # ts)"

text \<open>The exceptions of the Python run time that the model reaches.\<close>

datatype error = ValueError | OverflowError

section \<open>Dates (\<^verbatim>\<open>datetime.date\<close>)\<close>

datatype date = Date (year: int) (month: int) (day: int)

definition is_leap :: "int \<Rightarrow> bool" where
  "is_leap y = (y mod 4 = 0 \<and> (y mod 100 \<noteq> 0 \<or> y mod 400 = 0))"

definition days_in_month :: "int \<Rightarrow> int \<Rightarrow> int" where
  "days_in_month y m =
     (if m = 2 then (if is_leap y then 29 else 28)
      else if m = 4 \<or> m = 6 \<or> m = 9 \<or> m = 11 then 30
      else 31)"

definition valid_date :: "date \<Rightarrow> bool" where
  "valid_date d =
     (1 \<le> year d \<and> year d \<le> 9999 \<and> 1 \<le> month d \<and> month d \<le> 12 \<and>
      1 \<le> day d \<and> day d \<le> days_in_month (year d) (month d))"

text \<open>
  \<^verbatim>\<open>datetime.date(y, m, d)\<close>: raises \<^verbatim>\<open>ValueError\<close> outside years 1..9999, months 1..12
  and the days of the month.
\<close>

definition py_date :: "int \<Rightarrow> int \<Rightarrow> int \<Rightarrow> error + date" where
  "py_date y m d = (if valid_date (Date y m d) then Inr (Date y m d) else Inl ValueError)"

text \<open>
  \<^verbatim>\<open>d - datetime.timedelta(days=1)\<close>: the previous calendar day; \<^verbatim>\<open>OverflowError\<close>
  before 0001-01-01.
\<close>

fun minus_one_day :: "date \<Rightarrow> error + date" where
  "minus_one_day (Date y m d) =
     (if 1 < d then Inr (Date y m (d - 1))
      else if 1 < m then Inr (Date y (m - 1) (days_in_month y (m - 1)))
      else if 1 < y then Inr (Date (y - 1) 12 31)
      else Inl OverflowError)"

text \<open>\<^verbatim>\<open>a <= b\<close> on dates.\<close>

definition date_le :: "date \<Rightarrow> date \<Rightarrow> bool" where
  "date_le a b =
     (year a < year b \<or>
      (year a = year b \<and> (month a < month b \<or> (month a = month b \<and> day a \<le> day b))))"

text \<open>
  The query window of a month, as both scripts compute it:
  \<^verbatim>\<open>
  start_date = datetime.date(year, month, 1)
  if month == 12:
      end_date = datetime.date(year + 1, 1, 1) - datetime.timedelta(days=1)
  else:
      end_date = datetime.date(year, month + 1, 1) - datetime.timedelta(days=1)
  \<close>
\<close>

definition month_window :: "int \<Rightarrow> int \<Rightarrow> error + (date \<times> date)" where
  "month_window y m =
     (case py_date y m 1 of
        Inl e \<Rightarrow> Inl e
      | Inr start_date \<Rightarrow>
          (case (if m = 12 then py_date (y + 1) 1 1 else py_date y (m + 1) 1) of
             Inl e \<Rightarrow> Inl e
           | Inr first_of_next \<Rightarrow>
               (case minus_one_day first_of_next of
                  Inl e \<Rightarrow> Inl e
                | Inr end_date \<Rightarrow> Inr (start_date, end_date))))"

text \<open>
  The step to the next month in \<^verbatim>\<open>scrape_by_month\<close>:
  \<^verbatim>\<open>
  if month == 12:
      current = datetime.date(year + 1, 1, 1)
  else:
      current = datetime.date(year, month + 1, 1)
  \<close>
\<close>

definition next_month :: "date \<Rightarrow> error + date" where
  "next_month current =
     (if month current = 12 then py_date (year current + 1) 1 1
      else py_date (year current) (month current + 1) 1)"

section \<open>Documents and rows\<close>

subsection \<open>NYTimes\<close>

text \<open>
  A document of the article search API, with the keys \<^verbatim>\<open>parse_articles\<close> reads. The
  nested objects \<^verbatim>\<open>headline\<close> and \<^verbatim>\<open>byline\<close> and the list \<^verbatim>\<open>keywords\<close> are typed as the
  API gives them.
\<close>

record nyt_headline =
  headline_main :: "string field"

record nyt_byline =
  byline_original :: "string field"

record nyt_keyword =
  kw_name :: "string field"
  kw_value :: "string field"

record nyt_doc =
  headline :: "nyt_headline field"
  pub_date :: "string field"
  snippet :: "string field"
  web_url :: "string field"
  word_count :: "int field"
  abstract :: "string field"
  news_desk :: "string field"
  section_name :: "string field"
  subsection_name :: "string field"
  type_of_material :: "string field"
  byline :: "nyt_byline field"
  doc_keywords :: "nyt_keyword list field"

text \<open>A row of the DataFrame \<^verbatim>\<open>parse_articles\<close> builds (twelve columns).\<close>

record nyt_row =
  row_headline :: cell
  row_pub_date :: cell
  row_snippet :: cell
  row_web_url :: cell
  row_word_count :: cell
  row_abstract :: cell
  row_news_desk :: cell
  row_section_name :: cell
  row_subsection_name :: cell
  row_type_of_material :: cell
  row_byline :: cell
  row_keywords :: cell

text \<open>
  \<^verbatim>\<open>[kw['value'] for kw in kws if kw.get('name') == 'subject']\<close>: \<^verbatim>\<open>None\<close> of the model
  when the comprehension or the \<^verbatim>\<open>join\<close> over it raises (a subject keyword without
  \<^verbatim>\<open>value\<close>: KeyError; with a null \<^verbatim>\<open>value\<close>: TypeError in \<^verbatim>\<open>join\<close>).
\<close>

fun subject_values :: "nyt_keyword list \<Rightarrow> string list option" where
  "subject_values [] = Some []"
| "subject_values (kw # kws) =
     (if py_get (kw_name kw) = CStr ''subject''
      then (case kw_value kw of
              Val v \<Rightarrow> (case subject_values kws of None \<Rightarrow> None | Some vs \<Rightarrow> Some (v # vs))
            | _ \<Rightarrow> None)
      else subject_values kws)"

text \<open>
  One iteration of the loop of \<^verbatim>\<open>parse_articles\<close>; \<^verbatim>\<open>None\<close> when the \<^verbatim>\<open>try\<close> block raises
  and the row is skipped (\<^verbatim>\<open>except: continue\<close>): a null \<^verbatim>\<open>headline\<close>
  (\<^verbatim>\<open>None.get\<close>), null \<^verbatim>\<open>keywords\<close> (not iterable), or a failing keyword list.
\<close>

definition parse_article :: "nyt_doc \<Rightarrow> nyt_row option" where
  "parse_article article =
     (case headline article of
        Null \<Rightarrow> None
      | h \<Rightarrow>
          (case (case doc_keywords article of
                   Absent \<Rightarrow> Some []
                 | Null \<Rightarrow> None
                 | Val kws \<Rightarrow> subject_values kws) of
             None \<Rightarrow> None
           | Some vs \<Rightarrow>
               Some \<lparr> row_headline =
                        (case h of Val hd_obj \<Rightarrow> py_get_default (headline_main hd_obj) (CStr [])
                         | _ \<Rightarrow> CStr []),
                      row_pub_date = py_get_default (pub_date article) (CStr []),
                      row_snippet = py_get_default (snippet article) (CStr []),
                      row_web_url = py_get_default (web_url article) (CStr []),
                      row_word_count = py_get_int (word_count article) (CInt 0),
                      row_abstract = py_get_default (abstract article) (CStr []),
                      row_news_desk = py_get_default (news_desk article) (CStr []),
                      row_section_name = py_get_default (section_name article) (CStr []),
                      row_subsection_name = py_get_default (subsection_name article) (CStr []),
                      row_type_of_material = py_get_default (type_of_material article) (CStr []),
                      row_byline =
                        (case byline article of
                           Val b \<Rightarrow> py_get_default (byline_original b) (CStr [])
                         | _ \<Rightarrow> CStr []),
                      row_keywords = CStr (join_comma vs) \<rparr>))"

text \<open>
  The JSON body of a reply: \<^verbatim>\<open>{'response': {'docs': [...]}}\<close>, either key possibly
  absent. \<^verbatim>\<open>other_keys\<close> says whether the top-level object has any other key (an object
  with no key at all is falsy in Python).
\<close>

record nyt_response =
  docs :: "nyt_doc list option"

record nyt_body =
  response :: "nyt_response option"
  other_keys :: bool

definition nyt_truthy :: "nyt_body option \<Rightarrow> bool" where
  "nyt_truthy r = (case r of None \<Rightarrow> False | Some b \<Rightarrow> response b \<noteq> None \<or> other_keys b)"

text \<open>
  \<^verbatim>\<open>
  def parse_articles(response):
      if not response or 'response' not in response or 'docs' not in response['response']:
          return pd.DataFrame()
      articles = response['response']['docs']
      if not articles:
          return pd.DataFrame()
      data = []
      for article in articles:
          try: ... data.append(row)
          except: continue
      return pd.DataFrame(data)
  \<close>
  A DataFrame is the list of its rows.
\<close>

definition parse_articles :: "nyt_body option \<Rightarrow> nyt_row list" where
  "parse_articles r =
     (if \<not> nyt_truthy r then []
      else case r of
             None \<Rightarrow> []
           | Some b \<Rightarrow>
               (case response b of
                  None \<Rightarrow> []
                | Some resp \<Rightarrow>
                    (case docs resp of
                       None \<Rightarrow> []
                     | Some articles \<Rightarrow>
                         if articles = [] then [] else List.map_filter parse_article articles)))"

subsection \<open>Guardian\<close>

text \<open>
  A result of the content API, with the keys \<^verbatim>\<open>parse_guardian_articles\<close> reads: the
  nested object \<^verbatim>\<open>fields\<close>, the list \<^verbatim>\<open>tags\<close>, and the top-level keys.
\<close>

record guardian_fields =
  fields_headline :: "string field"
  fields_standfirst :: "string field"
  fields_trailText :: "string field"
  fields_wordcount :: "string field"
  fields_byline :: "string field"

record guardian_tag =
  tag_webTitle :: "string field"
  tag_type :: "string field"

record guardian_doc =
  doc_id :: "string field"
  doc_fields :: "guardian_fields field"
  doc_tags :: "guardian_tag list field"
  webTitle :: "string field"
  webPublicationDate :: "string field"
  webUrl :: "string field"
  sectionName :: "string field"
  pillarName :: "string field"
  doc_type :: "string field"

record guardian_row =
  grow_headline :: cell
  grow_pub_date :: cell
  grow_snippet :: cell
  grow_web_url :: cell
  grow_word_count :: cell
  grow_abstract :: cell
  grow_section_name :: cell
  grow_pillar_name :: cell
  grow_type :: cell
  grow_byline :: cell
  grow_keywords :: cell
  grow_article_id :: cell

text \<open>
  \<^verbatim>\<open>[tag.get('webTitle', '') for tag in tags if tag.get('type') == 'keyword']\<close>: \<^verbatim>\<open>None\<close>
  of the model when \<^verbatim>\<open>join\<close> raises on a null title.
\<close>

fun keyword_titles :: "guardian_tag list \<Rightarrow> string list option" where
  "keyword_titles [] = Some []"
| "keyword_titles (t # ts) =
     (if py_get (tag_type t) = CStr ''keyword''
      then (case py_get_default (tag_webTitle t) (CStr []) of
              CStr v \<Rightarrow> (case keyword_titles ts of None \<Rightarrow> None | Some vs \<Rightarrow> Some (v # vs))
            | _ \<Rightarrow> None)
      else keyword_titles ts)"

text \<open>
  One iteration of the loop of \<^verbatim>\<open>parse_guardian_articles\<close>; \<^verbatim>\<open>None\<close> when the \<^verbatim>\<open>try\<close>
  block raises and the row is skipped: null \<^verbatim>\<open>fields\<close>, null \<^verbatim>\<open>tags\<close>, or a keyword
  tag with a null title. An absent \<^verbatim>\<open>fields\<close> is the empty object.
\<close>

definition empty_fields :: guardian_fields where
  "empty_fields =
     \<lparr> fields_headline = Absent, fields_standfirst = Absent, fields_trailText = Absent,
       fields_wordcount = Absent, fields_byline = Absent \<rparr>"

definition parse_guardian_article :: "guardian_doc \<Rightarrow> guardian_row option" where
  "parse_guardian_article article =
     (case (case doc_fields article of
              Absent \<Rightarrow> Some empty_fields
            | Null \<Rightarrow> None
            | Val f \<Rightarrow> Some f) of
        None \<Rightarrow> None
      | Some flds \<Rightarrow>
          (let snippet_cell =
                 (if truthy (py_get_default (fields_standfirst flds) (CStr []))
                  then py_get_default (fields_standfirst flds) (CStr [])
                  else py_get_default (fields_trailText flds) (CStr []))
           in case (case doc_tags article of
                      Absent \<Rightarrow> Some []
                    | Null \<Rightarrow> None
                    | Val tags \<Rightarrow> keyword_titles tags) of
                None \<Rightarrow> None
              | Some vs \<Rightarrow>
                  Some \<lparr> grow_headline =
                           py_get_default (fields_headline flds)
                             (py_get_default (webTitle article) (CStr [])),
                         grow_pub_date = py_get_default (webPublicationDate article) (CStr []),
                         grow_snippet = snippet_cell,
                         grow_web_url = py_get_default (webUrl article) (CStr []),
                         grow_word_count = py_get_default (fields_wordcount flds) (CInt 0),
                         grow_abstract = snippet_cell,
                         grow_section_name = py_get_default (sectionName article) (CStr []),
                         grow_pillar_name = py_get_default (pillarName article) (CStr []),
                         grow_type = py_get_default (doc_type article) (CStr []),
                         grow_byline = py_get_default (fields_byline flds) (CStr []),
                         grow_keywords = CStr (join_comma vs),
                         grow_article_id = py_get_default (doc_id article) (CStr []) \<rparr>))"

text \<open>
  The JSON body of a reply: \<^verbatim>\<open>{'response': {'results': [...], 'pages': n,
  'currentPage': k}}\<close>, each key possibly absent.
\<close>

record guardian_response =
  results :: "guardian_doc list option"
  pages :: "int option"
  currentPage :: "int option"

record guardian_body =
  g_response :: "guardian_response option"
  g_other_keys :: bool

definition guardian_truthy :: "guardian_body option \<Rightarrow> bool" where
  "guardian_truthy r =
     (case r of None \<Rightarrow> False | Some b \<Rightarrow> g_response b \<noteq> None \<or> g_other_keys b)"

definition parse_guardian_articles :: "guardian_body option \<Rightarrow> guardian_row list" where
  "parse_guardian_articles r =
     (if \<not> guardian_truthy r then []
      else case r of
             None \<Rightarrow> []
           | Some b \<Rightarrow>
               (case g_response b of
                  None \<Rightarrow> []
                | Some resp \<Rightarrow>
                    (case results resp of
                       None \<Rightarrow> []
                     | Some articles \<Rightarrow>
                         if articles = [] then []
                         else List.map_filter parse_guardian_article articles)))"

section \<open>The Deduplicator\<close>

text \<open>
  The inner loop of \<^verbatim>\<open>search_trump_covid_comprehensive\<close>, the same in both scripts up to
  the key (\<^verbatim>\<open>web_url\<close>, \<^verbatim>\<open>id\<close>):
  \<^verbatim>\<open>
  for doc in docs:
      url = doc.get('web_url')
      if url and url not in seen_urls:
          all_docs.append(doc)
          seen_urls.add(url)
  \<close>
  The state is the pair \<^verbatim>\<open>(all_docs, seen_urls)\<close>.
\<close>

fun merge_docs :: "('d \<Rightarrow> cell) \<Rightarrow> 'd list \<Rightarrow> 'd list \<times> cell set \<Rightarrow> 'd list \<times> cell set" where
  "merge_docs key [] st = st"
| "merge_docs key (doc # ds) (all_docs, seen) =
     (let url = key doc
      in if truthy url \<and> url \<notin> seen
         then merge_docs key ds (all_docs @ [doc], insert url seen)
         else merge_docs key ds (all_docs, seen))"

text \<open>
  \<^verbatim>\<open>df.drop_duplicates(subset=[key], keep='first')\<close> of pandas: a row is dropped when an
  earlier row has the same value in the key column; the rows kept stay in order.
  Missing values (\<^verbatim>\<open>None\<close>) count as equal to each other.
\<close>

fun drop_duplicates_from :: "('r \<Rightarrow> 'k) \<Rightarrow> 'k set \<Rightarrow> 'r list \<Rightarrow> 'r list" where
  "drop_duplicates_from key seen [] = []"
| "drop_duplicates_from key seen (r # rs) =
     (if key r \<in> seen then drop_duplicates_from key seen rs
      else r # drop_duplicates_from key (insert (key r) seen) rs)"

definition drop_duplicates :: "('r \<Rightarrow> 'k) \<Rightarrow> 'r list \<Rightarrow> 'r list" where
  "drop_duplicates key rows = drop_duplicates_from key {} rows"

section \<open>Requests, replies and the trace of effects\<close>

text \<open>
  A request is identified by its query, its date window and its page; the other
  parameters (API key, sort order, page size, field flags) are constants. \<^verbatim>\<open>Multi i\<close> is
  the \<open>i\<close>-th of the five fixed queries of the multi-query pass (counted from 0),
  \<^verbatim>\<open>Single\<close> the broad query of the pagination pass.
\<close>

datatype query = Multi nat | Single

record request =
  req_query :: query
  req_begin_date :: date
  req_end_date :: date
  req_page :: int

text \<open>
  The effects of a run, in the order they happen: \<^verbatim>\<open>Get r st\<close> is one call of
  \<^verbatim>\<open>requests.get\<close> with the status code it returned (\<^verbatim>\<open>None\<close> when the call raised),
  \<^verbatim>\<open>Sleep n\<close> is \<^verbatim>\<open>time.sleep(n)\<close>.
\<close>

datatype event = Get request "nat option" | Sleep nat

text \<open>
  What a call of \<^verbatim>\<open>requests.get\<close> gives: it raises, or it returns a status code and a
  body, \<^verbatim>\<open>None\<close> where \<^verbatim>\<open>response.json()\<close> raises. The network is any function of the
  history of effects and the request, so a reply may depend on earlier requests and on
  the time slept.
\<close>

datatype 'b reply = Raises | Reply nat "'b option"

type_synonym 'b network = "event list \<Rightarrow> request \<Rightarrow> 'b reply"

fun requests :: "event list \<Rightarrow> request list" where
  "requests [] = []"
| "requests (Get r st # es) = r # requests es"
| "requests (Sleep n # es) = requests es"

section \<open>The fetch functions\<close>

text \<open>
  The two scripts' \<^verbatim>\<open>search_trump_covid_comprehensive\<close> and \<^verbatim>\<open>search_trump_covid_single\<close>
  are the same text up to the constants collected here: the pause between queries, the
  pause after HTTP 429, the identity key of a document, the place of the documents in a
  body, and the body the multi-query pass returns.
\<close>

record ('d, 'b) source =
  query_delay :: nat
  cooldown :: nat
  key_of :: "'d \<Rightarrow> cell"
  docs_of :: "'b \<Rightarrow> 'd list option"
  wrap_docs :: "'d list \<Rightarrow> 'b"

definition nyt_source :: "(nyt_doc, nyt_body) source" where
  "nyt_source =
     \<lparr> query_delay = 2, cooldown = 60,
       key_of = (\<lambda>doc. py_get (web_url doc)),
       docs_of = (\<lambda>b. case response b of None \<Rightarrow> None | Some r \<Rightarrow> docs r),
       wrap_docs = (\<lambda>ds. \<lparr> response = Some \<lparr> docs = Some ds \<rparr>, other_keys = False \<rparr>) \<rparr>"

definition guardian_source :: "(guardian_doc, guardian_body) source" where
  "guardian_source =
     \<lparr> query_delay = 1, cooldown = 10,
       key_of = (\<lambda>doc. py_get (doc_id doc)),
       docs_of = (\<lambda>b. case g_response b of None \<Rightarrow> None | Some r \<Rightarrow> results r),
       wrap_docs =
         (\<lambda>ds. \<lparr> g_response = Some \<lparr> results = Some ds, pages = None, currentPage = None \<rparr>,
                 g_other_keys = False \<rparr>) \<rparr>"

definition queries :: "query list" where
  "queries = [Multi 0, Multi 1, Multi 2, Multi 3, Multi 4]"

text \<open>
  One iteration of \<^verbatim>\<open>for i, query in enumerate(queries)\<close>; the state is
  \<^verbatim>\<open>(all_docs, seen_urls)\<close> and the trace.
  \<^verbatim>\<open>
  try:
      if i > 0:
          time.sleep(2)
      response = requests.get(base_url, params=params, verify=False, timeout=30)
      if response.status_code == 429:
          time.sleep(60)
          continue
      if response.status_code != 200:
          continue
      json_response = response.json()
      if 'response' in json_response and 'docs' in json_response['response']:
          docs = json_response['response']['docs']
          for doc in docs: ...
  except Exception as e:
      continue
  \<close>
\<close>

definition query_step ::
  "('d, 'b) source \<Rightarrow> 'b network \<Rightarrow> date \<times> date \<Rightarrow> int \<Rightarrow> nat \<times> query \<Rightarrow>
   'd list \<times> cell set \<times> event list \<Rightarrow> 'd list \<times> cell set \<times> event list" where
  "query_step src net w page iq st =
     (case st of
        (all_docs, seen, tr) \<Rightarrow>
          (let tr1 = (if 0 < fst iq then tr @ [Sleep (query_delay src)] else tr);
               req = \<lparr> req_query = snd iq, req_begin_date = fst w, req_end_date = snd w,
                       req_page = page \<rparr>
           in case net tr1 req of
                Raises \<Rightarrow> (all_docs, seen, tr1 @ [Get req None])
              | Reply status body \<Rightarrow>
                  if status = 429
                  then (all_docs, seen, tr1 @ [Get req (Some status), Sleep (cooldown src)])
                  else if status \<noteq> 200
                  then (all_docs, seen, tr1 @ [Get req (Some status)])
                  else (case body of
                          None \<Rightarrow> (all_docs, seen, tr1 @ [Get req (Some status)])
                        | Some b \<Rightarrow>
                            (case docs_of src b of
                               None \<Rightarrow> (all_docs, seen, tr1 @ [Get req (Some status)])
                             | Some ds \<Rightarrow>
                                 (case merge_docs (key_of src) ds (all_docs, seen) of
                                    (all_docs', seen') \<Rightarrow>
                                      (all_docs', seen', tr1 @ [Get req (Some status)]))))))"

text \<open>
  The loop over the five queries and the return:
  \<^verbatim>\<open>
  if all_docs:
      return {'response': {'docs': all_docs}}
  return None
  \<close>
\<close>

definition search_comprehensive ::
  "('d, 'b) source \<Rightarrow> 'b network \<Rightarrow> date \<times> date \<Rightarrow> int \<Rightarrow> event list \<Rightarrow>
   'b option \<times> event list" where
  "search_comprehensive src net w page tr =
     (case fold (query_step src net w page) (enumerate 0 queries) ([], {}, tr) of
        (all_docs, seen, tr') \<Rightarrow>
          (if all_docs \<noteq> [] then Some (wrap_docs src all_docs) else None, tr'))"

text \<open>
  \<^verbatim>\<open>
  try:
      response = requests.get(base_url, params=params, verify=False, timeout=30)
      if response.status_code == 429:
          time.sleep(60)
          return None
      if response.status_code != 200:
          return None
      return response.json()
  except Exception as e:
      return None
  \<close>
\<close>

definition search_single ::
  "('d, 'b) source \<Rightarrow> 'b network \<Rightarrow> date \<times> date \<Rightarrow> int \<Rightarrow> event list \<Rightarrow>
   'b option \<times> event list" where
  "search_single src net w page tr =
     (let req = \<lparr> req_query = Single, req_begin_date = fst w, req_end_date = snd w,
                  req_page = page \<rparr>
      in case net tr req of
           Raises \<Rightarrow> (None, tr @ [Get req None])
         | Reply status body \<Rightarrow>
             if status = 429 then (None, tr @ [Get req (Some status), Sleep (cooldown src)])
             else if status \<noteq> 200 then (None, tr @ [Get req (Some status)])
             else (body, tr @ [Get req (Some status)]))"

subsection \<open>NYTimes\<close>

text \<open>
  The NYTimes functions take \<^verbatim>\<open>(year, month)\<close> and compute the window themselves,
  before the \<^verbatim>\<open>try\<close> block: an exception of \<^verbatim>\<open>datetime.date\<close> reaches the caller.
\<close>

definition nyt_search_trump_covid_comprehensive ::
  "nyt_body network \<Rightarrow> int \<Rightarrow> int \<Rightarrow> int \<Rightarrow> event list \<Rightarrow>
   (error + nyt_body option) \<times> event list" where
  "nyt_search_trump_covid_comprehensive net y m page tr =
     (case month_window y m of
        Inl e \<Rightarrow> (Inl e, tr)
      | Inr w \<Rightarrow> (case search_comprehensive nyt_source net w page tr of (r, tr') \<Rightarrow> (Inr r, tr')))"

definition nyt_search_trump_covid_single ::
  "nyt_body network \<Rightarrow> int \<Rightarrow> int \<Rightarrow> int \<Rightarrow> event list \<Rightarrow>
   (error + nyt_body option) \<times> event list" where
  "nyt_search_trump_covid_single net y m page tr =
     (case month_window y m of
        Inl e \<Rightarrow> (Inl e, tr)
      | Inr w \<Rightarrow> (case search_single nyt_source net w page tr of (r, tr') \<Rightarrow> (Inr r, tr')))"

text \<open>
  The pagination loop of \<^verbatim>\<open>get_all_articles_for_month\<close>, over the pages still to visit;
  \<^verbatim>\<open>all_articles\<close> is the list of DataFrames collected so far.
  \<^verbatim>\<open>
  for page in range(1, 15):
      time.sleep(7)
      response = search_trump_covid_single(year, month, page=page)
      if not response:
          break
      df = parse_articles(response)
      if len(df) == 0:
          break
      all_articles.append(df)
      if len(df) < 10:
          break
  \<close>
\<close>

fun nyt_pagination ::
  "nyt_body network \<Rightarrow> int \<Rightarrow> int \<Rightarrow> int list \<Rightarrow> nyt_row list list \<Rightarrow> event list \<Rightarrow>
   (error + nyt_row list list) \<times> event list" where
  "nyt_pagination net y m [] all_articles tr = (Inr all_articles, tr)"
| "nyt_pagination net y m (page # ps) all_articles tr =
     (case nyt_search_trump_covid_single net y m page (tr @ [Sleep 7]) of
        (Inl e, tr') \<Rightarrow> (Inl e, tr')
      | (Inr r, tr') \<Rightarrow>
          if \<not> nyt_truthy r then (Inr all_articles, tr')
          else if length (parse_articles r) = 0 then (Inr all_articles, tr')
          else if length (parse_articles r) < 10
          then (Inr (all_articles @ [parse_articles r]), tr')
          else nyt_pagination net y m ps (all_articles @ [parse_articles r]) tr')"

text \<open>
  \<^verbatim>\<open>
  response = search_trump_covid_comprehensive(year, month, page=0)
  if response:
      df = parse_articles(response)
      if len(df) > 0:
          all_articles.append(df)
  ...
  if all_articles:
      combined = pd.concat(all_articles, ignore_index=True)
      combined = combined.drop_duplicates(subset=['web_url'], keep='first')
      return combined
  return pd.DataFrame()
  \<close>
\<close>

definition nyt_get_all_articles_for_month ::
  "nyt_body network \<Rightarrow> int \<Rightarrow> int \<Rightarrow> event list \<Rightarrow> (error + nyt_row list) \<times> event list" where
  "nyt_get_all_articles_for_month net y m tr =
     (case nyt_search_trump_covid_comprehensive net y m 0 tr of
        (Inl e, tr1) \<Rightarrow> (Inl e, tr1)
      | (Inr r, tr1) \<Rightarrow>
          (case nyt_pagination net y m [1..14]
                  (if nyt_truthy r \<and> 0 < length (parse_articles r) then [parse_articles r]
                   else [])
                  tr1 of
             (Inl e, tr2) \<Rightarrow> (Inl e, tr2)
           | (Inr all_articles, tr2) \<Rightarrow>
               (Inr (if all_articles \<noteq> []
                     then drop_duplicates row_web_url (concat all_articles)
                     else []),
                tr2)))"

subsection \<open>Guardian\<close>

definition max_pages :: int where
  "max_pages = 20"

text \<open>
  The pagination loop of the Guardian's \<^verbatim>\<open>get_all_articles_for_month\<close>:
  \<^verbatim>\<open>
  page = 2
  max_pages = 20
  while page <= max_pages:
      time.sleep(1)
      response = search_trump_covid_single(from_date_str, to_date_str, page=page)
      if not response:
          break
      response_obj = response.get('response', {})
      total_pages = response_obj.get('pages', 0)
      current_page = response_obj.get('currentPage', 0)
      df = parse_guardian_articles(response)
      if len(df) == 0:
          break
      all_articles.append(df)
      if current_page >= total_pages:
          break
      page += 1
  \<close>
\<close>

definition total_pages :: "guardian_body option \<Rightarrow> int" where
  "total_pages r =
     (case r of
        None \<Rightarrow> 0
      | Some b \<Rightarrow>
          (case g_response b of
             None \<Rightarrow> 0
           | Some resp \<Rightarrow> (case pages resp of None \<Rightarrow> 0 | Some n \<Rightarrow> n)))"

definition current_page :: "guardian_body option \<Rightarrow> int" where
  "current_page r =
     (case r of
        None \<Rightarrow> 0
      | Some b \<Rightarrow>
          (case g_response b of
             None \<Rightarrow> 0
           | Some resp \<Rightarrow> (case currentPage resp of None \<Rightarrow> 0 | Some n \<Rightarrow> n)))"

function guardian_pagination ::
  "guardian_body network \<Rightarrow> date \<times> date \<Rightarrow> int \<Rightarrow> guardian_row list list \<Rightarrow> event list \<Rightarrow>
   guardian_row list list \<times> event list" where
  "guardian_pagination net w page all_articles tr =
     (if page \<le> max_pages
      then (case search_single guardian_source net w page (tr @ [Sleep 1]) of
              (r, tr') \<Rightarrow>
                if \<not> guardian_truthy r then (all_articles, tr')
                else if length (parse_guardian_articles r) = 0 then (all_articles, tr')
                else if current_page r \<ge> total_pages r
                then (all_articles @ [parse_guardian_articles r], tr')
                else guardian_pagination net w (page + 1)
                       (all_articles @ [parse_guardian_articles r]) tr')
      else (all_articles, tr))"
  by pat_completeness auto
termination
  by (relation "measure (\<lambda>(net, w, page, all_articles, tr). nat (max_pages + 1 - page))") auto

declare guardian_pagination.simps [simp del]

definition guardian_get_all_articles_for_month ::
  "guardian_body network \<Rightarrow> int \<Rightarrow> int \<Rightarrow> event list \<Rightarrow>
   (error + guardian_row list) \<times> event list" where
  "guardian_get_all_articles_for_month net y m tr =
     (case month_window y m of
        Inl e \<Rightarrow> (Inl e, tr)
      | Inr w \<Rightarrow>
          (case search_comprehensive guardian_source net w 1 tr of
             (r, tr1) \<Rightarrow>
               (case guardian_pagination net w 2
                       (if guardian_truthy r \<and> 0 < length (parse_guardian_articles r)
                        then [parse_guardian_articles r] else [])
                       tr1 of
                  (all_articles, tr2) \<Rightarrow>
                    (Inr (if all_articles \<noteq> []
                          then drop_duplicates grow_article_id (concat all_articles)
                          else []),
                     tr2))))"

section \<open>The Backfill Driver\<close>

subsection \<open>File names\<close>

text \<open>Python's \<^verbatim>\<open>str\<close> of an \<^verbatim>\<open>int\<close> and the format \<^verbatim>\<open>{month:02d}\<close>.\<close>

definition digit_char :: "nat \<Rightarrow> char" where
  "digit_char n = ''0123456789'' ! n"

function str_nat :: "nat \<Rightarrow> string" where
  "str_nat n = (if n < 10 then [digit_char n] else str_nat (n div 10) @ [digit_char (n mod 10)])"
  by pat_completeness auto
termination
  by (relation "measure (\<lambda>n. n)") auto

declare str_nat.simps [simp del]

definition str_int :: "int \<Rightarrow> string" where
  "str_int i = (if i < 0 then CHR ''-'' # str_nat (nat (- i)) else str_nat (nat i))"

definition pad2 :: "int \<Rightarrow> string" where
  "pad2 i = (if 0 \<le> i \<and> i < 10 then CHR ''0'' # str_int i else str_int i)"

text \<open>\<^verbatim>\<open>f'{year}-{month:02d}'\<close> and the name of the month's file in the output directory.\<close>

definition year_month :: "int \<Rightarrow> int \<Rightarrow> string" where
  "year_month y m = str_int y @ ''-'' @ pad2 m"

definition csv_path :: "int \<Rightarrow> int \<Rightarrow> string" where
  "csv_path y m = year_month y m @ ''.csv''"

subsection \<open>The loop over the months\<close>

text \<open>
  The state of \<^verbatim>\<open>scrape_by_month\<close>: the output directory (each file name with the table
  \<^verbatim>\<open>pd.read_csv\<close> reads from it; \<^verbatim>\<open>df.to_csv\<close> stores the table), the trace of effects,
  and the counters \<^verbatim>\<open>total\<close> and \<^verbatim>\<open>monthly_counts\<close>.
\<close>

record 'r driver =
  files :: "(string \<times> 'r list) list"
  trace :: "event list"
  total :: nat
  monthly_counts :: "(string \<times> nat) list"

text \<open>
  The body of the loop for one month; the second component is the exception that ends
  the run, if any. \<^verbatim>\<open>get_month\<close> is the script's \<^verbatim>\<open>get_all_articles_for_month\<close>.
  \<^verbatim>\<open>
  csv_path = f'nytimes_trump_covid/{year}-{month:02d}.csv'
  if os.path.exists(csv_path):
      df = pd.read_csv(csv_path)
      count = len(df)
      total += count
      monthly_counts.append({'year_month': f'{year}-{month:02d}', 'count': count})
  else:
      df = get_all_articles_for_month(year, month)
      if len(df) > 0:
          df.to_csv(csv_path, index=False)
          count = len(df)
          total += count
          monthly_counts.append({'year_month': f'{year}-{month:02d}', 'count': count})
      else:
          monthly_counts.append({'year_month': f'{year}-{month:02d}', 'count': 0})
  \<close>
\<close>

definition scrape_month ::
  "(int \<Rightarrow> int \<Rightarrow> event list \<Rightarrow> (error + 'r list) \<times> event list) \<Rightarrow> int \<Rightarrow> int \<Rightarrow>
   'r driver \<Rightarrow> 'r driver \<times> error option" where
  "scrape_month get_month y m st =
     (case map_of (files st) (csv_path y m) of
        Some df \<Rightarrow>
          (st \<lparr> total := total st + length df,
                monthly_counts := monthly_counts st @ [(year_month y m, length df)] \<rparr>,
           None)
      | None \<Rightarrow>
          (case get_month y m (trace st) of
             (Inl e, tr') \<Rightarrow> (st \<lparr> trace := tr' \<rparr>, Some e)
           | (Inr df, tr') \<Rightarrow>
               if 0 < length df
               then (st \<lparr> files := AList.update (csv_path y m) df (files st),
                          trace := tr',
                          total := total st + length df,
                          monthly_counts := monthly_counts st @ [(year_month y m, length df)] \<rparr>,
                     None)
               else (st \<lparr> trace := tr',
                          monthly_counts := monthly_counts st @ [(year_month y m, 0)] \<rparr>,
                     None)))"

text \<open>
  \<^verbatim>\<open>
  current = start_date
  while current <= end_date:
      year, month = current.year, current.month
      ...
      if month == 12:
          current = datetime.date(year + 1, 1, 1)
      else:
          current = datetime.date(year, month + 1, 1)
  \<close>
\<close>

function scrape_loop ::
  "(int \<Rightarrow> int \<Rightarrow> event list \<Rightarrow> (error + 'r list) \<times> event list) \<Rightarrow> date \<Rightarrow> date \<Rightarrow>
   'r driver \<Rightarrow> 'r driver \<times> error option" where
  "scrape_loop get_month current end_date st =
     (if date_le current end_date
      then (case scrape_month get_month (year current) (month current) st of
              (st', Some e) \<Rightarrow> (st', Some e)
            | (st', None) \<Rightarrow>
                (case next_month current of
                   Inl e \<Rightarrow> (st', Some e)
                 | Inr nxt \<Rightarrow> scrape_loop get_month nxt end_date st'))
      else (st, None))"
  by pat_completeness auto
termination
  by (relation "measure (\<lambda>(get_month, current, end_date, st).
          nat (12 * (year end_date - year current) + 13 - month current))")
     (auto simp: date_le_def next_month_def py_date_def valid_date_def split: if_splits)

declare scrape_loop.simps [simp del]

definition scrape_by_month ::
  "(int \<Rightarrow> int \<Rightarrow> event list \<Rightarrow> (error + 'r list) \<times> event list) \<Rightarrow> date \<Rightarrow> date \<Rightarrow>
   (string \<times> 'r list) list \<Rightarrow> 'r driver \<times> error option" where
  "scrape_by_month get_month start_date end_date dir =
     scrape_loop get_month start_date end_date
       \<lparr> files = dir, trace = [], total = 0, monthly_counts = [] \<rparr>"

definition nyt_scrape_by_month ::
  "nyt_body network \<Rightarrow> date \<Rightarrow> date \<Rightarrow> (string \<times> nyt_row list) list \<Rightarrow>
   nyt_row driver \<times> error option" where
  "nyt_scrape_by_month net = scrape_by_month (nyt_get_all_articles_for_month net)"

definition guardian_scrape_by_month ::
  "guardian_body network \<Rightarrow> date \<Rightarrow> date \<Rightarrow> (string \<times> guardian_row list) list \<Rightarrow>
   guardian_row driver \<times> error option" where
  "guardian_scrape_by_month net = scrape_by_month (guardian_get_all_articles_for_month net)"

subsection \<open>Combining the files\<close>

text \<open>
  \<^verbatim>\<open>glob.glob('nytimes_trump_covid/*.csv')\<close>: the names of the directory that end in
  \<^verbatim>\<open>.csv\<close> and do not start with a dot.
\<close>

definition is_csv :: "string \<Rightarrow> bool" where
  "is_csv name =
     (case name of
        [] \<Rightarrow> False
      | c # cs \<Rightarrow> c \<noteq> CHR ''.'' \<and> 4 \<le> length name \<and> drop (length name - 4) name = ''.csv'')"

definition glob_csv :: "(string \<times> 'r list) list \<Rightarrow> string list" where
  "glob_csv dir = filter is_csv (map fst dir)"

text \<open>\<^verbatim>\<open>pd.read_csv(f)\<close> for a name the directory holds.\<close>

definition read_csv :: "(string \<times> 'r list) list \<Rightarrow> string \<Rightarrow> 'r list" where
  "read_csv dir f = (case map_of dir f of None \<Rightarrow> [] | Some df \<Rightarrow> df)"

text \<open>
  \<^verbatim>\<open>combined.sort_values('pub_date', ascending=False)\<close> on the column of timestamps:
  later timestamps first, missing ones (\<^verbatim>\<open>NaT\<close>) last. pandas does not fix the order of
  rows with equal timestamps; the model keeps them in input order.
\<close>

definition sort_values_desc :: "('r \<Rightarrow> int option) \<Rightarrow> 'r list \<Rightarrow> 'r list" where
  "sort_values_desc stamp rows =
     sort_key (\<lambda>r. case stamp r of Some t \<Rightarrow> (0 :: nat, - t) | None \<Rightarrow> (1, 0)) rows"

text \<open>
  The end of both scripts. \<^verbatim>\<open>key\<close> is the identity column; \<^verbatim>\<open>to_datetime\<close> is
  \<^verbatim>\<open>pd.to_datetime\<close> on the \<^verbatim>\<open>pub_date\<close> cell of a row: it raises, or gives a timestamp
  or \<^verbatim>\<open>NaT\<close>. The result is the table written to \<^verbatim>\<open>combined.csv\<close>, \<^verbatim>\<open>None\<close> when no
  file is found.
  \<^verbatim>\<open>
  files = sorted(glob.glob('nytimes_trump_covid/*.csv'))
  if files:
      combined = pd.concat([pd.read_csv(f) for f in files], ignore_index=True)
      combined = combined.drop_duplicates(subset=['web_url'], keep='first')
      combined['pub_date'] = pd.to_datetime(combined['pub_date'])
      combined = combined.sort_values('pub_date', ascending=False)
      combined.to_csv("nytimes_trump_covid/combined.csv", index=False)
  \<close>
\<close>

definition stamp_of :: "('r \<Rightarrow> error + int option) \<Rightarrow> 'r \<Rightarrow> int option" where
  "stamp_of to_datetime r = (case to_datetime r of Inl e \<Rightarrow> None | Inr t \<Rightarrow> t)"

fun first_error :: "('r \<Rightarrow> error + 'a) \<Rightarrow> 'r list \<Rightarrow> error option" where
  "first_error f [] = None"
| "first_error f (r # rs) = (case f r of Inl e \<Rightarrow> Some e | Inr t \<Rightarrow> first_error f rs)"

definition combine_all_files ::
  "('r \<Rightarrow> 'k) \<Rightarrow> ('r \<Rightarrow> error + int option) \<Rightarrow> (string \<times> 'r list) list \<Rightarrow>
   error + 'r list option" where
  "combine_all_files key to_datetime dir =
     (let fs = sort (glob_csv dir)
      in if fs \<noteq> []
         then (let combined = drop_duplicates key (concat (map (read_csv dir) fs))
               in case first_error to_datetime combined of
                    Some e \<Rightarrow> Inl e
                  | None \<Rightarrow> Inr (Some (sort_values_desc (stamp_of to_datetime) combined)))
         else Inr None)"

section \<open>Sample documents\<close>

text \<open>Documents and rows with a given identity key and date, every other key absent.\<close>

definition nyt_doc_with :: "string field \<Rightarrow> string field \<Rightarrow> nyt_doc" where
  "nyt_doc_with url published =
     \<lparr> headline = Absent, pub_date = published, snippet = Absent, web_url = url,
       word_count = Absent, abstract = Absent, news_desk = Absent, section_name = Absent,
       subsection_name = Absent, type_of_material = Absent, byline = Absent,
       doc_keywords = Absent \<rparr>"

definition nyt_row_with :: "cell \<Rightarrow> cell \<Rightarrow> nyt_row" where
  "nyt_row_with url published =
     \<lparr> row_headline = CStr [], row_pub_date = published, row_snippet = CStr [],
       row_web_url = url, row_word_count = CInt 0, row_abstract = CStr [],
       row_news_desk = CStr [], row_section_name = CStr [], row_subsection_name = CStr [],
       row_type_of_material = CStr [], row_byline = CStr [], row_keywords = CStr [] \<rparr>"


definition guardian_row_with :: "cell \<Rightarrow> cell \<Rightarrow> guardian_row" where
  "guardian_row_with ident published =
     \<lparr> grow_headline = CStr [], grow_pub_date = published, grow_snippet = CStr [],
       grow_web_url = CStr [], grow_word_count = CInt 0, grow_abstract = CStr [],
       grow_section_name = CStr [], grow_pillar_name = CStr [], grow_type = CStr [],
       grow_byline = CStr [], grow_keywords = CStr [], grow_article_id = ident \<rparr>"

section \<open>Describing a run\<close>

text \<open>
  The documents a reply gives to the multi-query pass: those of a body with status 200
  that holds a list of documents, none otherwise.
\<close>

fun reply_docs :: "('d, 'b) source \<Rightarrow> 'b reply \<Rightarrow> 'd list" where
  "reply_docs src Raises = []"
| "reply_docs src (Reply status body) =
     (if status = 200
      then (case body of
              None \<Rightarrow> []
            | Some b \<Rightarrow> (case docs_of src b of None \<Rightarrow> [] | Some ds \<Rightarrow> ds))
      else [])"

text \<open>
  The documents the network gave to the requests of a stretch of trace, in order;
  \<^verbatim>\<open>hist\<close> is the history before the stretch.
\<close>

fun replayed_docs :: "('d, 'b) source \<Rightarrow> 'b network \<Rightarrow> event list \<Rightarrow> event list \<Rightarrow> 'd list" where
  "replayed_docs src net hist [] = []"
| "replayed_docs src net hist (Get r st # es) =
     reply_docs src (net hist r) @ replayed_docs src net (hist @ [Get r st]) es"
| "replayed_docs src net hist (Sleep n # es) = replayed_docs src net (hist @ [Sleep n]) es"

text \<open>
  In a stretch of trace, every request answered with status 429 is directly followed by
  a pause of \<^verbatim>\<open>c\<close> seconds.
\<close>

fun cooldown_ok :: "nat \<Rightarrow> event list \<Rightarrow> bool" where
  "cooldown_ok c [] = True"
| "cooldown_ok c (Get r st # es) =
     (if st = Some 429 then (case es of Sleep n # es' \<Rightarrow> n = c \<and> cooldown_ok c es | _ \<Rightarrow> False)
      else cooldown_ok c es)"
| "cooldown_ok c (Sleep n # es) = cooldown_ok c es"

text \<open>
  What \<^verbatim>\<open>search_trump_covid_single\<close> returns for a reply: the body of a reply with status
  200, \<^verbatim>\<open>None\<close> for every other reply. \<^verbatim>\<open>replayed_bodies\<close> lists these for the requests
  of a stretch of trace, in order.
\<close>

fun reply_body :: "'b reply \<Rightarrow> 'b option" where
  "reply_body Raises = None"
| "reply_body (Reply status body) = (if status = 200 then body else None)"

fun replayed_bodies :: "'b network \<Rightarrow> event list \<Rightarrow> event list \<Rightarrow> 'b option list" where
  "replayed_bodies net hist [] = []"
| "replayed_bodies net hist (Get r st # es) =
     reply_body (net hist r) # replayed_bodies net (hist @ [Get r st]) es"
| "replayed_bodies net hist (Sleep n # es) = replayed_bodies net (hist @ [Sleep n]) es"

text \<open>
  The status code of a reply, and the replies the scripts treat as a failed request: an
  exception, or a status other than 200 and 429.
\<close>

fun reply_status :: "'b reply \<Rightarrow> nat option" where
  "reply_status Raises = None"
| "reply_status (Reply status body) = Some status"

fun request_failed :: "'b reply \<Rightarrow> bool" where
  "request_failed Raises = True"
| "request_failed (Reply status body) = (status \<noteq> 200 \<and> status \<noteq> 429)"

text \<open>The request of a query for a window and a page.\<close>

definition request_for :: "query \<Rightarrow> date \<times> date \<Rightarrow> int \<Rightarrow> request" where
  "request_for qu w page =
     \<lparr> req_query = qu, req_begin_date = fst w, req_end_date = snd w, req_page = page \<rparr>"

text \<open>Sample networks: every request fails with status 500; every request succeeds with no document.\<close>

definition nyt_net_failing :: "nyt_body network" where
  "nyt_net_failing = (\<lambda>h r. Reply 500 None)"

definition nyt_net_empty :: "nyt_body network" where
  "nyt_net_empty = (\<lambda>h r. Reply 200 (Some \<lparr> response = Some \<lparr> docs = Some [] \<rparr>, other_keys = True \<rparr>))"

definition guardian_net_failing :: "guardian_body network" where
  "guardian_net_failing = (\<lambda>h r. Reply 500 None)"

text \<open>
  A body with \<^verbatim>\<open>n\<close> copies of one document, and sample networks that serve ten documents
  on page 1 and three on every other page; the second answers page 1 with status 429
  instead, the third with status 500.
\<close>

definition nyt_body_of :: "nyt_doc list \<Rightarrow> nyt_body" where
  "nyt_body_of ds = \<lparr> response = Some \<lparr> docs = Some ds \<rparr>, other_keys = True \<rparr>"

definition nyt_net_pages :: "nyt_body network" where
  "nyt_net_pages =
     (\<lambda>h r. if req_page r = 1
            then Reply 200 (Some (nyt_body_of (replicate 10 (nyt_doc_with (Val ''u1'') Absent))))
            else Reply 200 (Some (nyt_body_of (replicate 3 (nyt_doc_with (Val ''u2'') Absent)))))"

definition nyt_net_429 :: "nyt_body network" where
  "nyt_net_429 = (\<lambda>h r. if req_page r = 1 then Reply 429 None else nyt_net_pages h r)"

definition nyt_net_500 :: "nyt_body network" where
  "nyt_net_500 = (\<lambda>h r. if req_page r = 1 then Reply 500 None else nyt_net_pages h r)"


definition guardian_net_429 :: "guardian_body network" where
  "guardian_net_429 = (\<lambda>h r. Reply 429 None)"

section \<open>The calendar months of a range\<close>

text \<open>
  The months from the month of \<^verbatim>\<open>s\<close> to the month of \<^verbatim>\<open>e\<close> inclusive, in calendar
  order, each as \<^verbatim>\<open>(year, month)\<close>: month number \<^verbatim>\<open>12 * year + (month - 1)\<close> counts the
  months, so that January follows December of the year before.
\<close>

definition month_index :: "date \<Rightarrow> int" where
  "month_index d = 12 * year d + (month d - 1)"

definition months_between :: "date \<Rightarrow> date \<Rightarrow> (int \<times> int) list" where
  "months_between s e = map (\<lambda>i. (i div 12, i mod 12 + 1)) [month_index s .. month_index e]"

text \<open>
  The loop body run for each month of a list in turn, ending at the first exception.
\<close>

fun run_months ::
  "(int \<Rightarrow> int \<Rightarrow> event list \<Rightarrow> (error + 'r list) \<times> event list) \<Rightarrow> (int \<times> int) list \<Rightarrow>
   'r driver \<Rightarrow> 'r driver \<times> error option" where
  "run_months get_month [] st = (st, None)"
| "run_months get_month ((y, m) # ms) st =
     (case scrape_month get_month y m st of
        (st', Some e) \<Rightarrow> (st', Some e)
      | (st', None) \<Rightarrow> run_months get_month ms st')"

text \<open>
  A network whose page 1 of the pagination pass holds one document without
  \<^verbatim>\<open>web_url\<close>, every other reply being an empty list of documents.
\<close>

definition nyt_net_no_url :: "nyt_body network" where
  "nyt_net_no_url =
     (\<lambda>h r. if req_query r = Single \<and> req_page r = 1
            then Reply 200 (Some (nyt_body_of [nyt_doc_with Absent (Val ''2020-01-05'')]))
            else Reply 200 (Some (nyt_body_of [])))"

text \<open>
  A stand-in for \<^verbatim>\<open>pd.to_datetime\<close> on sample rows whose \<^verbatim>\<open>pub_date\<close> is already a number:
  the number is the timestamp, a missing or empty cell is \<^verbatim>\<open>NaT\<close>, any other text
  raises.
\<close>

definition sample_to_datetime :: "nyt_row \<Rightarrow> error + int option" where
  "sample_to_datetime r =
     (case row_pub_date r of
        CInt n \<Rightarrow> Inr (Some n)
      | CNone \<Rightarrow> Inr None
      | CStr s \<Rightarrow> if s = [] then Inr None else Inl ValueError)"




section \<open>The Deduplicator: properties\<close>

lemma drop_duplicates_from_keys:
  "key ` set (drop_duplicates_from key seen rs) = key ` set rs - seen"
  by (induction rs arbitrary: seen) auto

lemma drop_duplicates_from_distinct:
  "distinct (map key (drop_duplicates_from key seen rs))"
  by (induction rs arbitrary: seen) (auto simp: drop_duplicates_from_keys)

lemma drop_duplicates_from_find:
  "k \<notin> seen \<Longrightarrow>
   find (\<lambda>r. key r = k) (drop_duplicates_from key seen rs) = find (\<lambda>r. key r = k) rs"
  by (induction rs arbitrary: seen) auto

lemma drop_duplicates_from_subseq: "subseq (drop_duplicates_from key seen rs) rs"
  by (induction rs arbitrary: seen) auto

lemma drop_duplicates_from_id:
  "distinct (map key rs) \<Longrightarrow> set (map key rs) \<inter> seen = {} \<Longrightarrow>
   drop_duplicates_from key seen rs = rs"
  by (induction rs arbitrary: seen) auto

text \<open>
  The loop of the multi-query pass is \<^verbatim>\<open>drop_duplicates\<close> after the documents with a
  falsy key (absent, null or empty) have been removed.
\<close>

lemma merge_docs_drop_duplicates:
  "merge_docs key ds (acc, seen) =
     (acc @ drop_duplicates_from key seen (filter (\<lambda>d. truthy (key d)) ds),
      seen \<union> set (map key (filter (\<lambda>d. truthy (key d)) ds)))"
  by (induction ds arbitrary: acc seen) (auto simp: Let_def)

lemma merge_docs_append:
  "merge_docs key (xs @ ys) st = merge_docs key ys (merge_docs key xs st)"
  by (induction xs arbitrary: st) (auto simp: Let_def)

lemma find_filter_truthy:
  "truthy k \<Longrightarrow>
   find (\<lambda>d. key d = k) (filter (\<lambda>d. truthy (key d)) ds) = find (\<lambda>d. key d = k) ds"
  by (induction ds) auto

lemma drop_duplicates_from_subset: "set (drop_duplicates_from key seen rs) \<subseteq> set rs"
  by (induction rs arbitrary: seen) auto

text \<open>
  Claim C9, as the code has it. For both deduplication steps, deduplicating twice equals
  deduplicating once. \<^verbatim>\<open>drop_duplicates\<close> (the months' and the combined tables, any
  key column) returns a table whose identity keys are pairwise distinct unchanged. The
  loop of the multi-query pass returns documents whose identity keys are pairwise
  distinct unchanged when every key is truthy as well: the loop tests
  \<^verbatim>\<open>if url and url not in seen_urls\<close>, so a document whose key is absent, null or empty
  is dropped whatever the other keys are.
\<close>

theorem deduplication_idempotent:
  "(distinct (map key rows) \<longrightarrow> drop_duplicates key rows = rows) \<and>
   drop_duplicates key (drop_duplicates key rows) = drop_duplicates key rows \<and>
   (distinct (map dkey ds) \<and> list_all (\<lambda>d. truthy (dkey d)) ds \<longrightarrow>
      merge_docs dkey ds ([], {}) = (ds, set (map dkey ds))) \<and>
   fst (merge_docs dkey (fst (merge_docs dkey ds ([], {}))) ([], {})) =
     fst (merge_docs dkey ds ([], {}))"
proof -
  have once: "distinct (map key rows) \<Longrightarrow> drop_duplicates key rows = rows"
    unfolding drop_duplicates_def by (rule drop_duplicates_from_id) simp_all
  have "distinct (map key (drop_duplicates key rows))"
    unfolding drop_duplicates_def by (rule drop_duplicates_from_distinct)
  then have twice: "drop_duplicates key (drop_duplicates key rows) = drop_duplicates key rows"
    unfolding drop_duplicates_def by (intro drop_duplicates_from_id) simp_all
  have once_d: "distinct (map dkey xs) \<Longrightarrow> drop_duplicates dkey xs = xs" for xs
    unfolding drop_duplicates_def by (rule drop_duplicates_from_id) simp_all
  have dist_d: "distinct (map dkey (drop_duplicates dkey xs))" for xs
    unfolding drop_duplicates_def by (rule drop_duplicates_from_distinct)
  have twice_d: "drop_duplicates dkey (drop_duplicates dkey xs) = drop_duplicates dkey xs" for xs
    by (rule once_d) (rule dist_d)
  have all_truthy: "filter (\<lambda>d. truthy (dkey d)) ds = ds" if "list_all (\<lambda>d. truthy (dkey d)) ds"
    using that by (induction ds) auto
  have m: "merge_docs dkey xs ([], {}) =
             (drop_duplicates dkey (filter (\<lambda>d. truthy (dkey d)) xs),
              set (map dkey (filter (\<lambda>d. truthy (dkey d)) xs)))" for xs
    by (simp add: merge_docs_drop_duplicates drop_duplicates_def)
  have c: "merge_docs dkey ds ([], {}) = (ds, set (map dkey ds))"
    if "distinct (map dkey ds)" "list_all (\<lambda>d. truthy (dkey d)) ds"
    unfolding m all_truthy [OF that(2)] using once_d [OF that(1)] by simp
  let ?t = "filter (\<lambda>d. truthy (dkey d)) ds"
  have sub: "set (drop_duplicates dkey ?t) \<subseteq> set ?t"
    unfolding drop_duplicates_def by (rule drop_duplicates_from_subset)
  have "filter (\<lambda>d. truthy (dkey d)) (drop_duplicates dkey ?t) = drop_duplicates dkey ?t"
    by (rule filter_True) (use sub in auto)
  then have d: "fst (merge_docs dkey (fst (merge_docs dkey ds ([], {}))) ([], {})) =
     fst (merge_docs dkey ds ([], {}))"
    by (simp add: m twice_d)
  from once twice c d show ?thesis by blast
qed

theorem deduplication_idempotent_witness:
  "distinct (map row_web_url [nyt_row_with (CStr ''u1'') CNone, nyt_row_with (CStr ''u2'') CNone]) \<and>
   drop_duplicates row_web_url [nyt_row_with (CStr ''u1'') CNone, nyt_row_with (CStr ''u2'') CNone] =
     [nyt_row_with (CStr ''u1'') CNone, nyt_row_with (CStr ''u2'') CNone] \<and>
   distinct (map (key_of nyt_source)
               [nyt_doc_with (Val ''u1'') Absent, nyt_doc_with (Val ''u2'') Absent]) \<and>
   list_all (\<lambda>d. truthy (key_of nyt_source d))
     [nyt_doc_with (Val ''u1'') Absent, nyt_doc_with (Val ''u2'') Absent] \<and>
   merge_docs (key_of nyt_source)
     [nyt_doc_with (Val ''u1'') Absent, nyt_doc_with (Val ''u2'') Absent] ([], {}) =
     ([nyt_doc_with (Val ''u1'') Absent, nyt_doc_with (Val ''u2'') Absent],
      set (map (key_of nyt_source)
             [nyt_doc_with (Val ''u1'') Absent, nyt_doc_with (Val ''u2'') Absent]))"
proof -
  have d: "distinct (map row_web_url
             [nyt_row_with (CStr ''u1'') CNone, nyt_row_with (CStr ''u2'') CNone])"
    by (simp add: nyt_row_with_def)
  have e: "distinct (map (key_of nyt_source)
               [nyt_doc_with (Val ''u1'') Absent, nyt_doc_with (Val ''u2'') Absent])"
    by (simp add: nyt_source_def nyt_doc_with_def)
  have f: "list_all (\<lambda>d. truthy (key_of nyt_source d))
     [nyt_doc_with (Val ''u1'') Absent, nyt_doc_with (Val ''u2'') Absent]"
    by (simp add: nyt_source_def nyt_doc_with_def)
  from d e f deduplication_idempotent
         [of row_web_url "[nyt_row_with (CStr ''u1'') CNone, nyt_row_with (CStr ''u2'') CNone]"
             "key_of nyt_source"
             "[nyt_doc_with (Val ''u1'') Absent, nyt_doc_with (Val ''u2'') Absent]"]
  show ?thesis by blast
qed

text \<open>
  The first half of claim C9 fails on the loop of the multi-query pass: the empty key
  and the key \<^verbatim>\<open>u1\<close> are pairwise distinct, and the loop returns the second document only.
\<close>

theorem merge_distinct_keys_counterexample:
  "distinct (map (key_of nyt_source)
               [nyt_doc_with (Val []) Absent, nyt_doc_with (Val ''u1'') Absent]) \<and>
   fst (merge_docs (key_of nyt_source)
          [nyt_doc_with (Val []) Absent, nyt_doc_with (Val ''u1'') Absent] ([], {})) =
     [nyt_doc_with (Val ''u1'') Absent] \<and>
   [nyt_doc_with (Val ''u1'') Absent] \<noteq>
     [nyt_doc_with (Val []) Absent, nyt_doc_with (Val ''u1'') Absent]"
  by (simp add: nyt_source_def nyt_doc_with_def)

text \<open>
  Claim C1, as the code has it. \<^verbatim>\<open>drop_duplicates\<close> (the months' and the combined
  tables) keeps every key of its input exactly once, and the row kept for a key is the
  first row with that key; the rows kept stay in input order. The loop of the
  multi-query pass does the same for the truthy keys, and drops every document whose
  key is absent, null or empty.
\<close>

theorem dedup_keeps_first_occurrence:
  "distinct (map key (drop_duplicates key rows)) \<and>
   set (map key (drop_duplicates key rows)) = set (map key rows) \<and>
   find (\<lambda>r. key r = k) (drop_duplicates key rows) = find (\<lambda>r. key r = k) rows \<and>
   subseq (drop_duplicates key rows) rows \<and>
   (case merge_docs key ds ([], {}) of
      (all_docs, seen) \<Rightarrow>
        distinct (map key all_docs) \<and>
        set (map key all_docs) = set (filter truthy (map key ds)) \<and>
        seen = set (map key all_docs) \<and>
        subseq all_docs ds \<and>
        (truthy k \<longrightarrow> find (\<lambda>d. key d = k) all_docs = find (\<lambda>d. key d = k) ds) \<and>
        (\<not> truthy k \<longrightarrow> find (\<lambda>d. key d = k) all_docs = None))"
proof -
  let ?t = "filter (\<lambda>d. truthy (key d)) ds"
  have keys: "set (map key (drop_duplicates key xs)) = set (map key xs)" for xs :: "'a list"
    using drop_duplicates_from_keys [of key "{}" xs] by (simp add: drop_duplicates_def)
  have first: "find (\<lambda>r. key r = k) (drop_duplicates key xs) = find (\<lambda>r. key r = k) xs"
    for xs :: "'a list"
    unfolding drop_duplicates_def by (rule drop_duplicates_from_find) simp
  have m: "merge_docs key ds ([], {}) = (drop_duplicates key ?t, set (map key ?t))"
    by (simp add: merge_docs_drop_duplicates drop_duplicates_def)
  have t_keys: "set (map key ?t) = set (filter truthy (map key ds))"
    by (induction ds) auto
  have sub: "subseq (drop_duplicates key ?t) ds"
    using drop_duplicates_from_subseq [of key "{}" ?t] subseq_filter_left [of _ ds]
    unfolding drop_duplicates_def by (rule subseq_order.order_trans)
  have falsy: "\<not> truthy k \<Longrightarrow> find (\<lambda>d. key d = k) (drop_duplicates key ?t) = None"
    by (auto simp: first find_None_iff)
  show ?thesis
    unfolding m
    using keys [of rows] first [of rows] drop_duplicates_from_distinct [of key "{}"]
      drop_duplicates_from_subseq [of key "{}" rows] keys [of ?t] first [of ?t]
      t_keys sub falsy find_filter_truthy [of k key ds]
    by (simp add: drop_duplicates_def)
qed

theorem dedup_keeps_first_occurrence_witness:
  "truthy (CStr ''u1'') \<and>
   merge_docs (key_of nyt_source)
     [nyt_doc_with (Val ''u1'') (Val ''a''), nyt_doc_with (Val []) Absent,
      nyt_doc_with (Val ''u1'') (Val ''b'')] ([], {}) =
     ([nyt_doc_with (Val ''u1'') (Val ''a'')], {CStr ''u1''}) \<and>
   find (\<lambda>d. key_of nyt_source d = CStr ''u1'')
     [nyt_doc_with (Val ''u1'') (Val ''a''), nyt_doc_with (Val []) Absent,
      nyt_doc_with (Val ''u1'') (Val ''b'')] = Some (nyt_doc_with (Val ''u1'') (Val ''a'')) \<and>
   drop_duplicates row_web_url
     [nyt_row_with (CStr ''u1'') (CStr ''a''), nyt_row_with (CStr []) CNone,
      nyt_row_with (CStr ''u1'') (CStr ''b'')] =
     [nyt_row_with (CStr ''u1'') (CStr ''a''), nyt_row_with (CStr []) CNone]"
  using dedup_keeps_first_occurrence
          [of "key_of nyt_source" "[]" "CStr ''u1''"
              "[nyt_doc_with (Val ''u1'') (Val ''a''), nyt_doc_with (Val []) Absent,
                nyt_doc_with (Val ''u1'') (Val ''b'')]"]
  by (simp add: nyt_source_def nyt_doc_with_def nyt_row_with_def drop_duplicates_def)

text \<open>
  Claim C1 as stated fails on the loop of the multi-query pass: a document whose
  \<^verbatim>\<open>web_url\<close> is the empty string has an identity key that the output does not hold.
\<close>

theorem dedup_empty_key_counterexample:
  "key_of nyt_source (nyt_doc_with (Val []) Absent)
     \<in> set (map (key_of nyt_source) [nyt_doc_with (Val []) Absent]) \<and>
   key_of nyt_source (nyt_doc_with (Val []) Absent)
     \<notin> set (map (key_of nyt_source)
              (fst (merge_docs (key_of nyt_source) [nyt_doc_with (Val []) Absent] ([], {}))))"
  by (simp add: nyt_source_def nyt_doc_with_def)

section \<open>The multi-query pass: properties\<close>

lemma requests_append: "requests (xs @ ys) = requests xs @ requests ys"
  by (induction xs rule: requests.induct) auto

lemma replayed_docs_append:
  "replayed_docs src net hist (xs @ ys) =
     replayed_docs src net hist xs @ replayed_docs src net (hist @ xs) ys"
  by (induction src net hist xs rule: replayed_docs.induct) auto

lemma cooldown_ok_append:
  "cooldown_ok c xs \<Longrightarrow> cooldown_ok c ys \<Longrightarrow> cooldown_ok c (xs @ ys)"
  by (induction c xs rule: cooldown_ok.induct) (auto split: list.splits event.splits if_splits)

lemma query_step_run:
  "\<exists>new. query_step src net w page iq (a, s, tr) =
           (fst (merge_docs (key_of src) (replayed_docs src net tr new) (a, s)),
            snd (merge_docs (key_of src) (replayed_docs src net tr new) (a, s)),
            tr @ new) \<and>
         requests new = [request_for (snd iq) w page] \<and>
         cooldown_ok (cooldown src) new"
proof -
  let ?tr1 = "if 0 < fst iq then tr @ [Sleep (query_delay src)] else tr"
  let ?pre = "if 0 < fst iq then [Sleep (query_delay src)] else []"
  let ?req = "request_for (snd iq) w page"
  have tr1: "?tr1 = tr @ ?pre" by simp
  show ?thesis
  proof (cases "net ?tr1 ?req")
    case Raises
    then show ?thesis
      by (intro exI [of _ "?pre @ [Get ?req None]"])
         (auto simp: query_step_def Let_def request_for_def replayed_docs_append requests_append)
  next
    case (Reply st body)
    show ?thesis
    proof (cases "st = 429")
      case True
      with Reply show ?thesis
        by (intro exI [of _ "?pre @ [Get ?req (Some st), Sleep (cooldown src)]"])
           (auto simp: query_step_def Let_def request_for_def replayed_docs_append requests_append)
    next
      case False
      with Reply show ?thesis
        by (intro exI [of _ "?pre @ [Get ?req (Some st)]"])
           (auto simp: query_step_def Let_def request_for_def replayed_docs_append requests_append
                 split: option.splits prod.splits)
    qed
  qed
qed

lemma fold_query_step:
  "\<exists>new. fold (query_step src net w page) iqs (a, s, tr) =
           (fst (merge_docs (key_of src) (replayed_docs src net tr new) (a, s)),
            snd (merge_docs (key_of src) (replayed_docs src net tr new) (a, s)),
            tr @ new) \<and>
         requests new = map (\<lambda>iq. request_for (snd iq) w page) iqs \<and>
         cooldown_ok (cooldown src) new"
proof (induction iqs arbitrary: a s tr)
  case Nil
  show ?case by (intro exI [of _ "[]"]) simp
next
  case (Cons iq iqs)
  obtain n1 where n1:
    "query_step src net w page iq (a, s, tr) =
           (fst (merge_docs (key_of src) (replayed_docs src net tr n1) (a, s)),
            snd (merge_docs (key_of src) (replayed_docs src net tr n1) (a, s)),
            tr @ n1)"
    "requests n1 = [request_for (snd iq) w page]" "cooldown_ok (cooldown src) n1"
    using query_step_run [of src net w page iq a s tr] by blast
  let ?a1 = "fst (merge_docs (key_of src) (replayed_docs src net tr n1) (a, s))"
  let ?s1 = "snd (merge_docs (key_of src) (replayed_docs src net tr n1) (a, s))"
  obtain n2 where n2:
    "fold (query_step src net w page) iqs (?a1, ?s1, tr @ n1) =
           (fst (merge_docs (key_of src) (replayed_docs src net (tr @ n1) n2) (?a1, ?s1)),
            snd (merge_docs (key_of src) (replayed_docs src net (tr @ n1) n2) (?a1, ?s1)),
            (tr @ n1) @ n2)"
    "requests n2 = map (\<lambda>iq. request_for (snd iq) w page) iqs" "cooldown_ok (cooldown src) n2"
    using Cons.IH [of ?a1 ?s1 "tr @ n1"] by blast
  show ?case
    by (intro exI [of _ "n1 @ n2"])
       (simp add: n1 n2 replayed_docs_append requests_append cooldown_ok_append merge_docs_append)
qed


lemma drop_duplicates_Nil_iff: "drop_duplicates key xs = [] \<longleftrightarrow> xs = []"
  by (cases xs) (auto simp: drop_duplicates_def)

lemma merge_docs_fresh:
  "fst (merge_docs key ds ([], {})) = drop_duplicates key (filter (\<lambda>d. truthy (key d)) ds)"
  by (simp add: merge_docs_drop_duplicates drop_duplicates_def)

lemma search_comprehensive_run:
  "\<exists>new. search_comprehensive src net w page tr =
           (if filter (\<lambda>d. truthy (key_of src d)) (replayed_docs src net tr new) = [] then None
            else Some (wrap_docs src
                   (drop_duplicates (key_of src)
                      (filter (\<lambda>d. truthy (key_of src d)) (replayed_docs src net tr new)))),
            tr @ new) \<and>
         requests new = map (\<lambda>qu. request_for qu w page) queries \<and>
         cooldown_ok (cooldown src) new"
proof -
  obtain new where new:
    "fold (query_step src net w page) (enumerate 0 queries) ([], {}, tr) =
           (fst (merge_docs (key_of src) (replayed_docs src net tr new) ([], {})),
            snd (merge_docs (key_of src) (replayed_docs src net tr new) ([], {})),
            tr @ new)"
    "requests new = map (\<lambda>iq. request_for (snd iq) w page) (enumerate 0 queries)"
    "cooldown_ok (cooldown src) new"
    using fold_query_step [of src net w page "enumerate 0 queries" "[]" "{}" tr] by blast
  have "map (\<lambda>iq. request_for (snd iq) w page) (enumerate 0 queries) =
        map (\<lambda>qu. request_for qu w page) queries"
    by (simp add: queries_def)
  with new show ?thesis
    by (intro exI [of _ new])
       (simp add: search_comprehensive_def merge_docs_fresh drop_duplicates_Nil_iff)
qed

lemma replayed_docs_none:
  "(\<And>h r. reply_docs src (net h r) = []) \<Longrightarrow> replayed_docs src net hist new = []"
  by (induction src net hist new rule: replayed_docs.induct) auto

lemma month_window_2020_1: "month_window 2020 1 = Inr (Date 2020 1 1, Date 2020 1 31)"
  by (simp add: month_window_def py_date_def valid_date_def days_in_month_def)

text \<open>
  Claim C10. \<^verbatim>\<open>search_trump_covid_comprehensive\<close> sends its five queries, for the
  month's window and the given page, whatever the replies are, and returns \<^verbatim>\<open>None\<close>
  exactly when the documents it accumulated from the replies to these five requests are
  none, that is when no reply held a document with a truthy key; otherwise it returns
  the accumulated documents, each key once. So it returns \<^verbatim>\<open>None\<close> when every request
  fails (an exception or a status other than 200) and also when every request succeeds
  with an empty list of documents: the caller sees \<^verbatim>\<open>None\<close> in both cases. The statement
  is for any source, so for both scripts; the NYTimes function computes the window from
  the year and the month first.
\<close>

theorem comprehensive_none_iff_no_documents:
  "(\<exists>new. search_comprehensive src net w page tr =
            (if filter (\<lambda>d. truthy (key_of src d)) (replayed_docs src net tr new) = [] then None
             else Some (wrap_docs src
                    (drop_duplicates (key_of src)
                       (filter (\<lambda>d. truthy (key_of src d)) (replayed_docs src net tr new)))),
             tr @ new) \<and>
          requests new = map (\<lambda>qu. request_for qu w page) queries) \<and>
   ((\<forall>h r. case net h r of Raises \<Rightarrow> True | Reply st b \<Rightarrow> st \<noteq> 200) \<longrightarrow>
      fst (search_comprehensive src net w page tr) = None) \<and>
   ((\<forall>h r. case net h r of
             Raises \<Rightarrow> False
           | Reply st b \<Rightarrow>
               st = 200 \<and> (case b of None \<Rightarrow> False | Some x \<Rightarrow> docs_of src x = Some [])) \<longrightarrow>
      fst (search_comprehensive src net w page tr) = None) \<and>
   (month_window y m = Inr w \<longrightarrow>
      nyt_search_trump_covid_comprehensive nnet y m page ntr =
        (Inr (fst (search_comprehensive nyt_source nnet w page ntr)),
         snd (search_comprehensive nyt_source nnet w page ntr)))"
proof -
  obtain new where new:
    "search_comprehensive src net w page tr =
           (if filter (\<lambda>d. truthy (key_of src d)) (replayed_docs src net tr new) = [] then None
            else Some (wrap_docs src
                   (drop_duplicates (key_of src)
                      (filter (\<lambda>d. truthy (key_of src d)) (replayed_docs src net tr new)))),
            tr @ new)"
    "requests new = map (\<lambda>qu. request_for qu w page) queries"
    using search_comprehensive_run [of src net w page tr] by blast
  have a: "\<exists>new. search_comprehensive src net w page tr =
            (if filter (\<lambda>d. truthy (key_of src d)) (replayed_docs src net tr new) = [] then None
             else Some (wrap_docs src
                    (drop_duplicates (key_of src)
                       (filter (\<lambda>d. truthy (key_of src d)) (replayed_docs src net tr new)))),
             tr @ new) \<and>
          requests new = map (\<lambda>qu. request_for qu w page) queries"
    using new by blast
  have none: "fst (search_comprehensive src net w page tr) = None"
    if "\<And>h r. reply_docs src (net h r) = []"
    using replayed_docs_none [of src net tr new, OF that] by (simp add: new(1))
  have b: "fst (search_comprehensive src net w page tr) = None"
    if f: "\<forall>h r. case net h r of Raises \<Rightarrow> True | Reply st b \<Rightarrow> st \<noteq> 200"
  proof (rule none)
    fix h r
    from f have "case net h r of Raises \<Rightarrow> True | Reply st b \<Rightarrow> st \<noteq> 200" by blast
    then show "reply_docs src (net h r) = []" by (cases "net h r") auto
  qed
  have c: "fst (search_comprehensive src net w page tr) = None"
    if f: "\<forall>h r. case net h r of
             Raises \<Rightarrow> False
           | Reply st b \<Rightarrow>
               st = 200 \<and> (case b of None \<Rightarrow> False | Some x \<Rightarrow> docs_of src x = Some [])"
  proof (rule none)
    fix h r
    from f have "case net h r of
             Raises \<Rightarrow> False
           | Reply st b \<Rightarrow>
               st = 200 \<and> (case b of None \<Rightarrow> False | Some x \<Rightarrow> docs_of src x = Some [])"
      by blast
    then show "reply_docs src (net h r) = []"
      by (cases "net h r") (auto split: option.splits)
  qed
  have d: "nyt_search_trump_covid_comprehensive nnet y m page ntr =
        (Inr (fst (search_comprehensive nyt_source nnet w page ntr)),
         snd (search_comprehensive nyt_source nnet w page ntr))"
    if "month_window y m = Inr w"
    by (simp add: nyt_search_trump_covid_comprehensive_def that split: prod.splits)
  from a b c d show ?thesis by blast
qed

theorem comprehensive_none_iff_no_documents_witness:
  "month_window 2020 1 = Inr (Date 2020 1 1, Date 2020 1 31) \<and>
   fst (nyt_search_trump_covid_comprehensive nyt_net_failing 2020 1 0 []) = Inr None \<and>
   fst (nyt_search_trump_covid_comprehensive nyt_net_empty 2020 1 0 []) = Inr None \<and>
   fst (nyt_search_trump_covid_comprehensive nyt_net_pages 2020 1 0 []) =
     Inr (Some (wrap_docs nyt_source [nyt_doc_with (Val ''u2'') Absent])) \<and>
   map req_query (requests (snd (nyt_search_trump_covid_comprehensive nyt_net_pages 2020 1 0 []))) =
     queries"
proof -
  let ?w = "(Date 2020 1 1, Date 2020 1 31)"
  have f: "\<forall>h r. case nyt_net_failing h r of Raises \<Rightarrow> True | Reply st b \<Rightarrow> st \<noteq> 200"
    by (simp add: nyt_net_failing_def)
  have e: "\<forall>h r. case nyt_net_empty h r of
             Raises \<Rightarrow> False
           | Reply st b \<Rightarrow>
               st = 200 \<and> (case b of None \<Rightarrow> False | Some x \<Rightarrow> docs_of nyt_source x = Some [])"
    by (simp add: nyt_net_empty_def nyt_source_def)
  note t1 = comprehensive_none_iff_no_documents
      [where src = nyt_source and net = nyt_net_failing and w = ?w and page = 0 and tr = "[]"
         and y = 2020 and m = 1 and nnet = nyt_net_failing and ntr = "[]"]
  note t2 = comprehensive_none_iff_no_documents
      [where src = nyt_source and net = nyt_net_empty and w = ?w and page = 0 and tr = "[]"
         and y = 2020 and m = 1 and nnet = nyt_net_empty and ntr = "[]"]
  from t1 f month_window_2020_1
  have 1: "fst (nyt_search_trump_covid_comprehensive nyt_net_failing 2020 1 0 []) = Inr None"
    by simp
  from t2 e month_window_2020_1
  have 2: "fst (nyt_search_trump_covid_comprehensive nyt_net_empty 2020 1 0 []) = Inr None"
    by simp
  have 3: "fst (nyt_search_trump_covid_comprehensive nyt_net_pages 2020 1 0 []) =
     Inr (Some (wrap_docs nyt_source [nyt_doc_with (Val ''u2'') Absent]))"
    by code_simp
  have 4: "map req_query
             (requests (snd (nyt_search_trump_covid_comprehensive nyt_net_pages 2020 1 0 []))) =
           queries"
    by code_simp
  from month_window_2020_1 1 2 3 4 show ?thesis by blast
qed

section \<open>The pagination pass: properties\<close>

lemma replayed_bodies_append:
  "replayed_bodies net hist (xs @ ys) =
     replayed_bodies net hist xs @ replayed_bodies net (hist @ xs) ys"
  by (induction net hist xs rule: replayed_bodies.induct) auto

lemma length_replayed_bodies: "length (replayed_bodies net hist es) = length (requests es)"
  by (induction net hist es rule: replayed_bodies.induct) auto

lemma parse_articles_falsy: "\<not> nyt_truthy r \<Longrightarrow> parse_articles r = []"
  by (simp add: parse_articles_def)

lemma parse_guardian_articles_falsy: "\<not> guardian_truthy r \<Longrightarrow> parse_guardian_articles r = []"
  by (simp add: parse_guardian_articles_def)

lemma search_single_run:
  "\<exists>new. search_single src net w page tr = (reply_body (net tr (request_for Single w page)), tr @ new) \<and>
         requests new = [request_for Single w page] \<and>
         replayed_bodies net tr new = [reply_body (net tr (request_for Single w page))] \<and>
         cooldown_ok (cooldown src) new"
proof (cases "net tr (request_for Single w page)")
  case Raises
  then show ?thesis
    by (intro exI [of _ "[Get (request_for Single w page) None]"])
       (simp add: search_single_def request_for_def)
next
  case (Reply st body)
  show ?thesis
  proof (cases "st = 429")
    case True
    with Reply show ?thesis
      by (intro exI [of _ "[Get (request_for Single w page) (Some st), Sleep (cooldown src)]"])
         (simp add: search_single_def request_for_def)
  next
    case False
    with Reply show ?thesis
      by (intro exI [of _ "[Get (request_for Single w page) (Some st)]"])
         (simp add: search_single_def request_for_def)
  qed
qed


lemma nyt_single_run:
  assumes w: "month_window y m = Inr w"
  shows "\<exists>new. nyt_search_trump_covid_single net y m page tr =
           (Inr (reply_body (net tr (request_for Single w page))), tr @ new) \<and>
         requests new = [request_for Single w page] \<and>
         replayed_bodies net tr new = [reply_body (net tr (request_for Single w page))] \<and>
         cooldown_ok 60 new"
  using search_single_run [of nyt_source net w page tr]
  by (auto simp: nyt_search_trump_covid_single_def w nyt_source_def)

lemma nyt_pagination_run:
  assumes w: "month_window y m = Inr w"
  shows "\<exists>new. nyt_pagination net y m ps acc tr =
           (Inr (acc @ filter (\<lambda>df. df \<noteq> []) (map parse_articles (replayed_bodies net tr new))),
            tr @ new) \<and>
         requests new = map (request_for Single w) (take (length (requests new)) ps) \<and>
         (ps \<noteq> [] \<longrightarrow> requests new \<noteq> []) \<and>
         list_all (\<lambda>df. 10 \<le> length df)
           (butlast (map parse_articles (replayed_bodies net tr new))) \<and>
         (length (requests new) < length ps \<longrightarrow>
            length (last (map parse_articles (replayed_bodies net tr new))) < 10) \<and>
         cooldown_ok 60 new"
proof (induction ps arbitrary: acc tr)
  case Nil
  show ?case by (intro exI [of _ "[]"]) simp
next
  case (Cons p ps)
  let ?b = "reply_body (net (tr @ [Sleep 7]) (request_for Single w p))"
  let ?df = "parse_articles ?b"
  obtain n1 where n1:
    "nyt_search_trump_covid_single net y m p (tr @ [Sleep 7]) = (Inr ?b, (tr @ [Sleep 7]) @ n1)"
    "requests n1 = [request_for Single w p]"
    "replayed_bodies net (tr @ [Sleep 7]) n1 = [?b]"
    "cooldown_ok 60 n1"
    using nyt_single_run [OF w, of net p "tr @ [Sleep 7]"] by blast
  show ?case
  proof (cases "length ?df < 10")
    case True
    have "nyt_pagination net y m (p # ps) acc tr =
            (Inr (acc @ filter (\<lambda>df. df \<noteq> []) [?df]), tr @ Sleep 7 # n1)"
      using True n1(1) parse_articles_falsy [of ?b] by auto
    with True n1 show ?thesis
      by (intro exI [of _ "Sleep 7 # n1"]) (simp add: cooldown_ok_append)
  next
    case False
    then have ne: "?df \<noteq> []" by auto
    have tr: "nyt_truthy ?b"
      using False by (cases "nyt_truthy ?b") (auto simp: parse_articles_falsy)
    obtain n2 where n2:
      "nyt_pagination net y m ps (acc @ [?df]) ((tr @ [Sleep 7]) @ n1) =
           (Inr ((acc @ [?df]) @ filter (\<lambda>df. df \<noteq> [])
                   (map parse_articles (replayed_bodies net ((tr @ [Sleep 7]) @ n1) n2))),
            ((tr @ [Sleep 7]) @ n1) @ n2)"
      "requests n2 = map (request_for Single w) (take (length (requests n2)) ps)"
      "ps \<noteq> [] \<longrightarrow> requests n2 \<noteq> []"
      "list_all (\<lambda>df. 10 \<le> length df)
           (butlast (map parse_articles (replayed_bodies net ((tr @ [Sleep 7]) @ n1) n2)))"
      "length (requests n2) < length ps \<longrightarrow>
            length (last (map parse_articles (replayed_bodies net ((tr @ [Sleep 7]) @ n1) n2))) < 10"
      "cooldown_ok 60 n2"
      using Cons.IH [of "acc @ [?df]" "(tr @ [Sleep 7]) @ n1"] by blast
    let ?pr2 = "map parse_articles (replayed_bodies net ((tr @ [Sleep 7]) @ n1) n2)"
    let ?new = "Sleep 7 # n1 @ n2"
    let ?pr = "map parse_articles (replayed_bodies net tr ?new)"
    have pr: "?pr = ?df # ?pr2"
      by (simp add: replayed_bodies_append n1(3))
    have eq: "nyt_pagination net y m (p # ps) acc tr =
            (Inr (acc @ filter (\<lambda>df. df \<noteq> []) ?pr), tr @ ?new)"
      unfolding pr using False ne tr n1(1) n2(1) by simp
    have len: "length ?pr2 = length (requests n2)"
      by (simp add: length_replayed_bodies)
    have nonempty: "ps \<noteq> [] \<Longrightarrow> ?pr2 \<noteq> []"
      using n2(3) len by (metis length_0_conv)
    have last_ok: "length (requests ?new) < length (p # ps) \<longrightarrow> length (last ?pr) < 10"
      unfolding pr
    proof
      assume "length (requests ?new) < length (p # ps)"
      then have lt: "length (requests n2) < length ps"
        by (simp add: requests_append n1(2))
      then have "ps \<noteq> []" by auto
      then have "?pr2 \<noteq> []" by (rule nonempty)
      moreover from lt n2(5) have "length (last ?pr2) < 10" by blast
      ultimately show "length (last (?df # ?pr2)) < 10" by simp
    qed
    have but_ok: "list_all (\<lambda>df. 10 \<le> length df) (butlast ?pr)"
      unfolding pr using n2(4) False by simp
    have reqs: "requests ?new = map (request_for Single w) (take (length (requests ?new)) (p # ps))"
      using n2(2) by (simp add: requests_append n1(2))
    have req_ne: "p # ps \<noteq> [] \<longrightarrow> requests ?new \<noteq> []"
      by (simp add: requests_append n1(2))
    have cd: "cooldown_ok 60 ?new"
      using n1(4) n2(6) by (simp add: cooldown_ok_append)
    from eq reqs req_ne but_ok last_ok cd show ?thesis
      by (intro exI [of _ ?new]) (intro conjI)
  qed
qed


lemma guardian_pagination_run:
  "\<exists>new. guardian_pagination net w p acc tr =
           (acc @ filter (\<lambda>df. df \<noteq> [])
                    (map parse_guardian_articles (replayed_bodies net tr new)),
            tr @ new) \<and>
         requests new = map (request_for Single w) [p .. p + int (length (requests new)) - 1] \<and>
         (p \<le> 20 \<longrightarrow> requests new \<noteq> []) \<and>
         (p \<le> 21 \<longrightarrow> p + int (length (requests new)) \<le> 21) \<and>
         list_all (\<lambda>b. parse_guardian_articles b \<noteq> [] \<and> current_page b < total_pages b)
           (butlast (replayed_bodies net tr new)) \<and>
         (p + int (length (requests new)) \<le> 20 \<longrightarrow>
            parse_guardian_articles (last (replayed_bodies net tr new)) = [] \<or>
            total_pages (last (replayed_bodies net tr new))
              \<le> current_page (last (replayed_bodies net tr new))) \<and>
         cooldown_ok 10 new"
proof (induction net w p acc tr rule: guardian_pagination.induct)
  case (1 net w p acc tr)
  show ?case
  proof (cases "p \<le> 20")
    case False
    then show ?thesis
      by (intro exI [of _ "[]"]) (simp add: guardian_pagination.simps [of net w p] max_pages_def)
  next
    case le: True
    let ?b = "reply_body (net (tr @ [Sleep 1]) (request_for Single w p))"
    let ?df = "parse_guardian_articles ?b"
    obtain n1 where n1:
      "search_single guardian_source net w p (tr @ [Sleep 1]) = (?b, (tr @ [Sleep 1]) @ n1)"
      "requests n1 = [request_for Single w p]"
      "replayed_bodies net (tr @ [Sleep 1]) n1 = [?b]"
      "cooldown_ok 10 n1"
      using search_single_run [of guardian_source net w p "tr @ [Sleep 1]"]
      by (auto simp: guardian_source_def)
    show ?thesis
    proof (cases "?df = [] \<or> total_pages ?b \<le> current_page ?b")
      case True
      have "guardian_pagination net w p acc tr =
              (acc @ filter (\<lambda>df. df \<noteq> []) [?df], tr @ Sleep 1 # n1)"
        using True le n1(1) parse_guardian_articles_falsy [of ?b]
        by (auto simp: guardian_pagination.simps [of net w p] max_pages_def)
      with True le n1 show ?thesis
        by (intro exI [of _ "Sleep 1 # n1"]) (auto simp: cooldown_ok_append)
    next
      case False
      then have ne: "?df \<noteq> []" and lt: "current_page ?b < total_pages ?b" by auto
      have tr: "guardian_truthy ?b"
        using ne by (cases "guardian_truthy ?b") (auto simp: parse_guardian_articles_falsy)
      have cont: "guardian_pagination net w p acc tr =
                    guardian_pagination net w (p + 1) (acc @ [?df]) ((tr @ [Sleep 1]) @ n1)"
        using ne lt tr le n1(1)
        by (simp add: guardian_pagination.simps [of net w p] max_pages_def)
      have IH: "\<exists>n2. (guardian_pagination net w (p + 1) (acc @ [?df]) ((tr @ [Sleep 1]) @ n1) =
           ((acc @ [?df]) @ filter (\<lambda>df. df \<noteq> [])
                    (map parse_guardian_articles (replayed_bodies net ((tr @ [Sleep 1]) @ n1) n2)),
            ((tr @ [Sleep 1]) @ n1) @ n2)) \<and>
          (requests n2 = map (request_for Single w) [p + 1 .. p + 1 + int (length (requests n2)) - 1]) \<and>
          (p + 1 \<le> 20 \<longrightarrow> requests n2 \<noteq> []) \<and>
          (p + 1 \<le> 21 \<longrightarrow> p + 1 + int (length (requests n2)) \<le> 21) \<and>
          (list_all (\<lambda>b. parse_guardian_articles b \<noteq> [] \<and> current_page b < total_pages b)
           (butlast (replayed_bodies net ((tr @ [Sleep 1]) @ n1) n2))) \<and>
          (p + 1 + int (length (requests n2)) \<le> 20 \<longrightarrow>
            parse_guardian_articles (last (replayed_bodies net ((tr @ [Sleep 1]) @ n1) n2)) = [] \<or>
            total_pages (last (replayed_bodies net ((tr @ [Sleep 1]) @ n1) n2))
              \<le> current_page (last (replayed_bodies net ((tr @ [Sleep 1]) @ n1) n2))) \<and>
          (cooldown_ok 10 n2)"
        by (rule "1.IH" [OF _ n1(1) [symmetric]]) (use le ne lt tr in \<open>auto simp: max_pages_def\<close>)
      then obtain n2 where n2:

        "guardian_pagination net w (p + 1) (acc @ [?df]) ((tr @ [Sleep 1]) @ n1) =
           ((acc @ [?df]) @ filter (\<lambda>df. df \<noteq> [])
                    (map parse_guardian_articles (replayed_bodies net ((tr @ [Sleep 1]) @ n1) n2)),
            ((tr @ [Sleep 1]) @ n1) @ n2)"
        "requests n2 = map (request_for Single w) [p + 1 .. p + 1 + int (length (requests n2)) - 1]"
        "p + 1 \<le> 20 \<longrightarrow> requests n2 \<noteq> []"
        "p + 1 \<le> 21 \<longrightarrow> p + 1 + int (length (requests n2)) \<le> 21"
        "list_all (\<lambda>b. parse_guardian_articles b \<noteq> [] \<and> current_page b < total_pages b)
           (butlast (replayed_bodies net ((tr @ [Sleep 1]) @ n1) n2))"
        "p + 1 + int (length (requests n2)) \<le> 20 \<longrightarrow>
            parse_guardian_articles (last (replayed_bodies net ((tr @ [Sleep 1]) @ n1) n2)) = [] \<or>
            total_pages (last (replayed_bodies net ((tr @ [Sleep 1]) @ n1) n2))
              \<le> current_page (last (replayed_bodies net ((tr @ [Sleep 1]) @ n1) n2))"
        "cooldown_ok 10 n2"
        by blast
      let ?bs2 = "replayed_bodies net ((tr @ [Sleep 1]) @ n1) n2"
      let ?new = "Sleep 1 # n1 @ n2"
      have bs: "replayed_bodies net tr ?new = ?b # ?bs2"
        by (simp add: replayed_bodies_append n1(3) del: One_nat_def)
      have eq: "guardian_pagination net w p acc tr =
           (acc @ filter (\<lambda>df. df \<noteq> [])
                    (map parse_guardian_articles (replayed_bodies net tr ?new)),
            tr @ ?new)"
        unfolding bs cont n2(1) using ne by simp
      have len: "length ?bs2 = length (requests n2)"
        by (simp add: length_replayed_bodies)
      have lenreq: "length (requests ?new) = Suc (length (requests n2))"
        by (simp add: requests_append n1(2))
      have reqs: "requests ?new =
                    map (request_for Single w) [p .. p + int (length (requests ?new)) - 1]"
      proof -
        have "[p .. p + int (length (requests ?new)) - 1] =
                p # [p + 1 .. p + 1 + int (length (requests n2)) - 1]"
          unfolding lenreq by (subst upto_rec1) auto
        then show ?thesis using n2(2) by (simp add: requests_append n1(2))
      qed
      have req_ne: "p \<le> 20 \<longrightarrow> requests ?new \<noteq> []"
        by (simp add: requests_append n1(2))
      have bound: "p \<le> 21 \<longrightarrow> p + int (length (requests ?new)) \<le> 21"
        unfolding lenreq using n2(4) le by auto
      have but_ok:
        "list_all (\<lambda>b. parse_guardian_articles b \<noteq> [] \<and> current_page b < total_pages b)
           (butlast (replayed_bodies net tr ?new))"
        unfolding bs using n2(5) ne lt by simp
      have last_ok: "p + int (length (requests ?new)) \<le> 20 \<longrightarrow>
            parse_guardian_articles (last (replayed_bodies net tr ?new)) = [] \<or>
            total_pages (last (replayed_bodies net tr ?new))
              \<le> current_page (last (replayed_bodies net tr ?new))"
        unfolding bs
      proof
        assume a: "p + int (length (requests ?new)) \<le> 20"
        then have a2: "p + 1 + int (length (requests n2)) \<le> 20"
          unfolding lenreq by simp
        then have "p + 1 \<le> 20" by auto
        with n2(3) len have "?bs2 \<noteq> []" by (metis length_0_conv)
        moreover from a2 n2(6) have
          "parse_guardian_articles (last ?bs2) = [] \<or>
           total_pages (last ?bs2) \<le> current_page (last ?bs2)" by blast
        ultimately show
          "parse_guardian_articles (last (?b # ?bs2)) = [] \<or>
           total_pages (last (?b # ?bs2)) \<le> current_page (last (?b # ?bs2))" by simp
      qed
      have cd: "cooldown_ok 10 ?new"
        using n1(4) n2(7) by (simp add: cooldown_ok_append)
      from eq reqs req_ne bound but_ok last_ok cd show ?thesis
        by (intro exI [of _ ?new]) (intro conjI)
    qed
  qed
qed

lemma req_page_request_for: "req_page (request_for qu w p) = p"
  by (simp add: request_for_def)

lemma map_req_page: "map req_page (map (request_for qu w) ps) = ps"
  by (induction ps) (auto simp: request_for_def)

lemma parse_articles_None: "parse_articles None = []"
  by (simp add: parse_articles_def nyt_truthy_def)

lemma parse_guardian_articles_None: "parse_guardian_articles None = []"
  by (simp add: parse_guardian_articles_def guardian_truthy_def)












section \<open>A month's fetch: properties\<close>

lemma requests_window_single:
  "list_all (\<lambda>r. req_begin_date r = fst w \<and> req_end_date r = snd w)
     (map (request_for Single w) ps)"
  by (induction ps) (auto simp: request_for_def)

lemma requests_window_queries:
  "list_all (\<lambda>r. req_begin_date r = fst w \<and> req_end_date r = snd w)
     (map (\<lambda>qu. request_for qu w page) qs)"
  by (induction qs) (auto simp: request_for_def)

lemma nyt_get_all_run:
  assumes w: "month_window y m = Inr w"
  shows "\<exists>new rows. nyt_get_all_articles_for_month net y m tr = (Inr rows, tr @ new) \<and>
           cooldown_ok 60 new \<and>
           take 5 (requests new) = map (\<lambda>qu. request_for qu w 0) queries \<and>
           list_all (\<lambda>r. req_begin_date r = fst w \<and> req_end_date r = snd w) (requests new)"
proof -
  obtain n1 r where n1:
    "search_comprehensive nyt_source net w 0 tr = (r, tr @ n1)"
    "requests n1 = map (\<lambda>qu. request_for qu w 0) queries"
    "cooldown_ok (cooldown nyt_source) n1"
    using search_comprehensive_run [of nyt_source net w 0 tr] by blast
  let ?acc = "if nyt_truthy r \<and> 0 < length (parse_articles r) then [parse_articles r] else []"
  obtain n2 where n2:
    "nyt_pagination net y m [1..14] ?acc (tr @ n1) =
           (Inr (?acc @ filter (\<lambda>df. df \<noteq> [])
                   (map parse_articles (replayed_bodies net (tr @ n1) n2))),
            (tr @ n1) @ n2)"
    "requests n2 = map (request_for Single w) (take (length (requests n2)) [1..14])"
    "cooldown_ok 60 n2"
    using nyt_pagination_run [OF w, of net "[1..14]" ?acc "tr @ n1"] by blast
  have c: "cooldown_ok 60 (n1 @ n2)"
    using n1(3) n2(3) by (simp add: cooldown_ok_append nyt_source_def)
  have l5: "length (requests n1) = 5" by (simp add: n1(2) queries_def)
  have t: "take 5 (requests (n1 @ n2)) = map (\<lambda>qu. request_for qu w 0) queries"
    using l5 by (simp add: requests_append n1(2))
  have wnd: "list_all (\<lambda>r. req_begin_date r = fst w \<and> req_end_date r = snd w)
               (requests (n1 @ n2))"
  proof -
    have "list_all (\<lambda>r. req_begin_date r = fst w \<and> req_end_date r = snd w) (requests n2)"
      by (subst n2(2)) (rule requests_window_single)
    then show ?thesis
      using requests_window_queries [of w 0 queries] by (simp add: requests_append n1(2))
  qed
  have "\<exists>rows. nyt_get_all_articles_for_month net y m tr = (Inr rows, tr @ n1 @ n2)"
    using n2(1)
    by (simp add: nyt_get_all_articles_for_month_def nyt_search_trump_covid_comprehensive_def
          w n1(1) split del: if_split)
  with c t wnd show ?thesis by blast
qed

lemma guardian_get_all_run:
  assumes w: "month_window y m = Inr w"
  shows "\<exists>new rows. guardian_get_all_articles_for_month net y m tr = (Inr rows, tr @ new) \<and>
           cooldown_ok 10 new \<and>
           take 5 (requests new) = map (\<lambda>qu. request_for qu w 1) queries \<and>
           list_all (\<lambda>r. req_begin_date r = fst w \<and> req_end_date r = snd w) (requests new)"
proof -
  obtain n1 r where n1:
    "search_comprehensive guardian_source net w 1 tr = (r, tr @ n1)"
    "requests n1 = map (\<lambda>qu. request_for qu w 1) queries"
    "cooldown_ok (cooldown guardian_source) n1"
    using search_comprehensive_run [of guardian_source net w 1 tr] by blast
  let ?acc = "if guardian_truthy r \<and> 0 < length (parse_guardian_articles r)
              then [parse_guardian_articles r] else []"
  obtain n2 where n2:
    "guardian_pagination net w 2 ?acc (tr @ n1) =
           (?acc @ filter (\<lambda>df. df \<noteq> [])
                    (map parse_guardian_articles (replayed_bodies net (tr @ n1) n2)),
            (tr @ n1) @ n2)"
    "requests n2 = map (request_for Single w) [2 .. 2 + int (length (requests n2)) - 1]"
    "cooldown_ok 10 n2"
    using guardian_pagination_run [of net w 2 ?acc "tr @ n1"] by blast
  have c: "cooldown_ok 10 (n1 @ n2)"
    using n1(3) n2(3) by (simp add: cooldown_ok_append guardian_source_def)
  have l5: "length (requests n1) = 5" by (simp add: n1(2) queries_def)
  have t: "take 5 (requests (n1 @ n2)) = map (\<lambda>qu. request_for qu w 1) queries"
    using l5 by (simp add: requests_append n1(2))
  have wnd: "list_all (\<lambda>r. req_begin_date r = fst w \<and> req_end_date r = snd w)
               (requests (n1 @ n2))"
  proof -
    have "list_all (\<lambda>r. req_begin_date r = fst w \<and> req_end_date r = snd w) (requests n2)"
      by (subst n2(2)) (rule requests_window_single)
    then show ?thesis
      using requests_window_queries [of w 1 queries] by (simp add: requests_append n1(2))
  qed
  have "\<exists>rows. guardian_get_all_articles_for_month net y m tr = (Inr rows, tr @ n1 @ n2)"
    using n2(1)
    by (simp add: guardian_get_all_articles_for_month_def w n1(1) split del: if_split)
  with c t wnd show ?thesis by blast
qed


text \<open>
  Claim C5, as the code has it. In every month's fetch, each request answered with
  HTTP 429 is directly followed by the source's pause (60 seconds for the NYTimes, 10
  for the Guardian), before any further request; the fetch returns its rows and raises
  nothing. The multi-query pass always issues all five queries, whatever the replies.
  In the pagination pass a rate-limited page ends the pagination: the function pauses
  and returns what it had, and no later page is requested.
\<close>

theorem rate_limit_pauses_and_ends_pagination:
  "(month_window y m = Inr w \<longrightarrow>
      (\<exists>new rows. nyt_get_all_articles_for_month net y m tr = (Inr rows, tr @ new) \<and>
         cooldown_ok 60 new \<and>
         take 5 (requests new) = map (\<lambda>qu. request_for qu w 0) queries) \<and>
      (\<exists>new rows. guardian_get_all_articles_for_month gnet y m gtr = (Inr rows, gtr @ new) \<and>
         cooldown_ok 10 new \<and>
         take 5 (requests new) = map (\<lambda>qu. request_for qu w 1) queries) \<and>
      (net (tr @ [Sleep 7]) (request_for Single w p) = Reply 429 b \<longrightarrow>
         nyt_pagination net y m (p # ps) acc tr =
           (Inr acc, tr @ [Sleep 7, Get (request_for Single w p) (Some 429), Sleep 60]))) \<and>
   (p \<le> 20 \<and> gnet (gtr @ [Sleep 1]) (request_for Single gw p) = Reply 429 gb \<longrightarrow>
      guardian_pagination gnet gw p gacc gtr =
        (gacc, gtr @ [Sleep 1, Get (request_for Single gw p) (Some 429), Sleep 10]))"
proof -
  have a: "\<exists>new rows. nyt_get_all_articles_for_month net y m tr = (Inr rows, tr @ new) \<and>
         cooldown_ok 60 new \<and>
         take 5 (requests new) = map (\<lambda>qu. request_for qu w 0) queries"
    if "month_window y m = Inr w"
    using nyt_get_all_run [OF that, of net tr] by blast
  have b: "\<exists>new rows. guardian_get_all_articles_for_month gnet y m gtr = (Inr rows, gtr @ new) \<and>
         cooldown_ok 10 new \<and>
         take 5 (requests new) = map (\<lambda>qu. request_for qu w 1) queries"
    if "month_window y m = Inr w"
    using guardian_get_all_run [OF that, of gnet gtr] by blast
  have c: "nyt_pagination net y m (p # ps) acc tr =
           (Inr acc, tr @ [Sleep 7, Get (request_for Single w p) (Some 429), Sleep 60])"
    if "month_window y m = Inr w" "net (tr @ [Sleep 7]) (request_for Single w p) = Reply 429 b"
    using that
    by (simp add: nyt_search_trump_covid_single_def search_single_def request_for_def
          nyt_source_def nyt_truthy_def)
  have d: "guardian_pagination gnet gw p gacc gtr =
        (gacc, gtr @ [Sleep 1, Get (request_for Single gw p) (Some 429), Sleep 10])"
    if "p \<le> 20" "gnet (gtr @ [Sleep 1]) (request_for Single gw p) = Reply 429 gb"
    using that
    by (simp add: guardian_pagination.simps [of gnet gw p] max_pages_def search_single_def
          request_for_def guardian_source_def guardian_truthy_def del: One_nat_def)
  from a b c d show ?thesis by blast
qed

theorem rate_limit_pauses_and_ends_pagination_witness:
  "month_window 2020 1 = Inr (Date 2020 1 1, Date 2020 1 31) \<and>
   nyt_net_429 ([] @ [Sleep 7]) (request_for Single (Date 2020 1 1, Date 2020 1 31) 1) =
     Reply 429 None \<and>
   nyt_pagination nyt_net_429 2020 1 [1, 2] [] [] =
     (Inr [], [Sleep 7, Get (request_for Single (Date 2020 1 1, Date 2020 1 31) 1) (Some 429),
               Sleep 60]) \<and>
   (2 :: int) \<le> 20 \<and>
   guardian_net_429 ([] @ [Sleep 1]) (request_for Single (Date 2020 1 1, Date 2020 1 31) 2) =
     Reply 429 None \<and>
   guardian_pagination guardian_net_429 (Date 2020 1 1, Date 2020 1 31) 2 [] [] =
     ([], [Sleep 1, Get (request_for Single (Date 2020 1 1, Date 2020 1 31) 2) (Some 429),
           Sleep 10]) \<and>
   (\<exists>new rows. nyt_get_all_articles_for_month nyt_net_429 2020 1 [] = (Inr rows, new) \<and>
      cooldown_ok 60 new) \<and>
   (\<exists>new rows. guardian_get_all_articles_for_month guardian_net_429 2020 1 [] = (Inr rows, new) \<and>
      cooldown_ok 10 new)"
proof -
  let ?w = "(Date 2020 1 1, Date 2020 1 31)"
  have n: "nyt_net_429 ([] @ [Sleep 7]) (request_for Single ?w 1) = Reply 429 None"
    by (simp add: nyt_net_429_def request_for_def)
  have g: "guardian_net_429 ([] @ [Sleep 1]) (request_for Single ?w 2) = Reply 429 None"
    by (simp add: guardian_net_429_def)
  have le: "(2 :: int) \<le> 20" by simp
  note t = rate_limit_pauses_and_ends_pagination
             [where y = 2020 and m = 1 and w = ?w and net = nyt_net_429 and tr = "[]"
                and gnet = guardian_net_429 and gtr = "[]" and p = 1 and ps = "[2]"
                and acc = "[]" and b = None and gw = ?w and gb = None and gacc = "[]"]
  note u = rate_limit_pauses_and_ends_pagination
             [where y = 2020 and m = 1 and w = ?w and net = nyt_net_429 and tr = "[]"
                and gnet = guardian_net_429 and gtr = "[]" and p = 2 and ps = "[]"
                and acc = "[]" and b = None and gw = ?w and gb = None and gacc = "[]"]
  from t month_window_2020_1 n have 1:
    "nyt_pagination nyt_net_429 2020 1 [1, 2] [] [] =
       (Inr [], [Sleep 7, Get (request_for Single ?w 1) (Some 429), Sleep 60])"
    by simp
  from u le g have 2:
    "guardian_pagination guardian_net_429 ?w 2 [] [] =
       ([], [Sleep 1, Get (request_for Single ?w 2) (Some 429), Sleep 10])"
    by simp
  from t month_window_2020_1 have 3:
    "\<exists>new rows. nyt_get_all_articles_for_month nyt_net_429 2020 1 [] = (Inr rows, new) \<and>
       cooldown_ok 60 new"
    by auto
  from t month_window_2020_1 have 4:
    "\<exists>new rows. guardian_get_all_articles_for_month guardian_net_429 2020 1 [] = (Inr rows, new) \<and>
       cooldown_ok 10 new"
    by auto
  from month_window_2020_1 n 1 le g 2 3 4 show ?thesis by blast
qed

text \<open>
  Claim C5 as stated fails on the pagination pass: with page 1 answered by HTTP 429 the
  NYTimes fetch never requests page 2, which the same network would serve and which is
  requested when page 1 is served.
\<close>

theorem rate_limited_page_ends_pagination_counterexample:
  "map req_page (requests (snd (nyt_get_all_articles_for_month nyt_net_429 2020 1 []))) =
     [0, 0, 0, 0, 0, 1] \<and>
   map req_page (requests (snd (nyt_get_all_articles_for_month nyt_net_pages 2020 1 []))) =
     [0, 0, 0, 0, 0, 1, 2] \<and>
   nyt_net_429 [] (request_for Single (Date 2020 1 1, Date 2020 1 31) 2) =
     nyt_net_pages [] (request_for Single (Date 2020 1 1, Date 2020 1 31) 2)"
proof -
  have a: "map req_page (requests (snd (nyt_get_all_articles_for_month nyt_net_429 2020 1 []))) =
     [0, 0, 0, 0, 0, 1]"
    by code_simp
  have b: "map req_page (requests (snd (nyt_get_all_articles_for_month nyt_net_pages 2020 1 []))) =
     [0, 0, 0, 0, 0, 1, 2]"
    by code_simp
  have c: "nyt_net_429 [] (request_for Single (Date 2020 1 1, Date 2020 1 31) 2) =
     nyt_net_pages [] (request_for Single (Date 2020 1 1, Date 2020 1 31) 2)"
    by (simp add: nyt_net_429_def request_for_def)
  from a b c show ?thesis by blast
qed

section \<open>The Backfill Driver: properties\<close>

lemma month_of_index:
  "1 \<le> m \<Longrightarrow> m \<le> 12 \<Longrightarrow> ((12 * y + (m - 1)) div 12, (12 * y + (m - 1)) mod 12 + 1) = (y, m)"
  for y m :: int
  by auto

lemma next_month_valid:
  assumes "valid_date c" "\<not> (year c = 9999 \<and> month c = 12)"
  shows "\<exists>n. next_month c = Inr n \<and> valid_date n \<and> day n = 1 \<and>
             month_index n = month_index c + 1"
  using assms
  by (cases c) (auto simp: next_month_def py_date_def valid_date_def month_index_def
                  days_in_month_def)

lemma date_le_first_day:
  assumes "valid_date n" "day n = 1" "valid_date e"
  shows "date_le n e \<longleftrightarrow> month_index n \<le> month_index e"
  using assms by (cases n; cases e) (auto simp: date_le_def valid_date_def month_index_def)

lemma date_le_index:
  assumes "valid_date s" "valid_date e" "date_le s e"
  shows "month_index s \<le> month_index e"
  using assms by (cases s; cases e) (auto simp: date_le_def valid_date_def month_index_def)

lemma months_between_Cons:
  assumes "valid_date c" "month_index c \<le> month_index e" "month_index n = month_index c + 1"
  shows "months_between c e = (year c, month c) # months_between n e"
proof -
  have "[month_index c .. month_index e] = month_index c # [month_index n .. month_index e]"
    using assms(2,3) by (subst upto_rec1) auto
  moreover have "(month_index c div 12, month_index c mod 12 + 1) = (year c, month c)"
    using assms(1) month_of_index [of "month c" "year c"]
    by (simp add: month_index_def valid_date_def)
  ultimately show ?thesis by (simp add: months_between_def)
qed

lemma months_between_Nil: "\<not> month_index c \<le> month_index e \<Longrightarrow> months_between c e = []"
  by (simp add: months_between_def)

lemma scrape_loop_run_months:
  "valid_date c \<Longrightarrow> valid_date e \<Longrightarrow> \<not> (year e = 9999 \<and> month e = 12) \<Longrightarrow>
   (date_le c e \<longleftrightarrow> month_index c \<le> month_index e) \<Longrightarrow>
   scrape_loop gm c e st = run_months gm (months_between c e) st"
proof (induction gm c e st rule: scrape_loop.induct)
  case (1 gm c e st)
  show ?case
  proof (cases "date_le c e")
    case False
    with "1.prems"(4) show ?thesis
      by (simp add: scrape_loop.simps [of gm c e st] months_between_Nil)
  next
    case True
    with "1.prems"(4) have le: "month_index c \<le> month_index e" by simp
    have notlast: "\<not> (year c = 9999 \<and> month c = 12)"
      using le "1.prems"(1,2,3)
      by (cases c; cases e) (auto simp: month_index_def valid_date_def)
    obtain n where n: "next_month c = Inr n" "valid_date n" "day n = 1"
        "month_index n = month_index c + 1"
      using next_month_valid [OF "1.prems"(1) notlast] by blast
    have mb: "months_between c e = (year c, month c) # months_between n e"
      by (rule months_between_Cons [OF "1.prems"(1) le n(4)])
    obtain st' r where sm: "scrape_month gm (year c) (month c) st = (st', r)"
      by (cases "scrape_month gm (year c) (month c) st") auto
    show ?thesis
    proof (cases r)
      case (Some err)
      with sm True show ?thesis
        by (simp add: scrape_loop.simps [of gm c e st] mb)
    next
      case None
      have "scrape_loop gm n e st' = run_months gm (months_between n e) st'"
        by (rule "1.IH" [OF True sm [unfolded None, symmetric] refl n(1) n(2) "1.prems"(2,3)
              date_le_first_day [OF n(2) n(3) "1.prems"(2)]])
      with sm None True n(1) show ?thesis
        by (simp add: scrape_loop.simps [of gm c e st] mb)
    qed
  qed
qed


lemma month_window_valid:
  assumes "1 \<le> y" "y \<le> 9999" "1 \<le> m" "m \<le> 12" "\<not> (y = 9999 \<and> m = 12)"
  shows "month_window y m = Inr (Date y m 1, Date y m (days_in_month y m))"
  using assms
  by (auto simp: month_window_def py_date_def valid_date_def days_in_month_def)

lemma months_between_valid:
  assumes "valid_date s" "valid_date e" "\<not> (year e = 9999 \<and> month e = 12)"
    and "(y, m) \<in> set (months_between s e)"
  shows "1 \<le> y \<and> y \<le> 9999 \<and> 1 \<le> m \<and> m \<le> 12 \<and> \<not> (y = 9999 \<and> m = 12)"
proof -
  from assms(4) obtain i where i: "month_index s \<le> i" "i \<le> month_index e"
      "y = i div 12" "m = i mod 12 + 1"
    by (auto simp: months_between_def)
  from assms(1) have lo: "12 \<le> month_index s"
    by (cases s) (auto simp: month_index_def valid_date_def)
  from assms(2,3) have hi: "month_index e \<le> 12 * 9999 + 10"
    by (cases e) (auto simp: month_index_def valid_date_def)
  have "1 \<le> i div 12 \<and> i div 12 \<le> 9999 \<and> 1 \<le> i mod 12 + 1 \<and> i mod 12 + 1 \<le> 12 \<and>
        \<not> (i div 12 = 9999 \<and> i mod 12 + 1 = 12)"
    using i(1,2) lo hi by presburger
  then show ?thesis by (simp add: i(3,4))
qed


lemma months_between_length:
  "length (months_between s e) = nat (month_index e - month_index s + 1)"
  by (simp add: months_between_def)

lemma scrape_month_ok:
  assumes "gm y m (trace st) = (Inr df, tr')"
  shows "\<exists>st'. scrape_month gm y m st = (st', None) \<and>
           map fst (monthly_counts st') = map fst (monthly_counts st) @ [year_month y m]"
  using assms by (auto simp: scrape_month_def split: option.splits)

lemma run_months_ok:
  assumes "\<And>y m tr. (y, m) \<in> set ms \<Longrightarrow> \<exists>df tr'. gm y m tr = (Inr df, tr')"
  shows "\<exists>st'. run_months gm ms st = (st', None) \<and>
           map fst (monthly_counts st') =
             map fst (monthly_counts st) @ map (\<lambda>(y, m). year_month y m) ms"
  using assms
proof (induction ms arbitrary: st)
  case Nil
  show ?case by simp
next
  case (Cons ym ms)
  obtain y m where ym: "ym = (y, m)" by (cases ym)
  obtain df tr' where g: "gm y m (trace st) = (Inr df, tr')"
    using Cons.prems [of y m "trace st"] ym by auto
  obtain st1 where st1: "scrape_month gm y m st = (st1, None)"
      "map fst (monthly_counts st1) = map fst (monthly_counts st) @ [year_month y m]"
    using scrape_month_ok [of gm y m st df tr', OF g] by blast
  obtain st' where st': "run_months gm ms st1 = (st', None)"
      "map fst (monthly_counts st') =
         map fst (monthly_counts st1) @ map (\<lambda>(y, m). year_month y m) ms"
    using Cons.IH [of st1] Cons.prems by auto
  show ?case
    by (intro exI [of _ st']) (simp add: ym st1 st')
qed




lemma backfill_run:
  assumes v: "valid_date s" "valid_date e" "date_le s e" "\<not> (year e = 9999 \<and> month e = 12)"
    and gm: "\<And>y m w tr. month_window y m = Inr w \<Longrightarrow> \<exists>df tr'. gm y m tr = (Inr df, tr')"
  shows "\<exists>st'. scrape_by_month gm s e dir = (st', None) \<and>
           map fst (monthly_counts st') = map (\<lambda>(y, m). year_month y m) (months_between s e)"
proof -
  let ?st = "\<lparr> files = dir, trace = [], total = 0, monthly_counts = [] \<rparr>"
  have le: "month_index s \<le> month_index e" by (rule date_le_index [OF v(1,2,3)])
  have loop: "scrape_loop gm s e ?st = run_months gm (months_between s e) ?st"
    using v(3) le by (intro scrape_loop_run_months [OF v(1,2,4)]) simp
  have ok: "\<exists>df tr'. gm y m tr = (Inr df, tr')" if "(y, m) \<in> set (months_between s e)" for y m tr
    using months_between_valid [OF v(1,2,4) that] gm [of y m _ tr] month_window_valid [of y m]
    by blast
  obtain st' where "run_months gm (months_between s e) ?st = (st', None)"
      "map fst (monthly_counts st') =
         map fst (monthly_counts ?st) @ map (\<lambda>(y, m). year_month y m) (months_between s e)"
    using run_months_ok [of "months_between s e" gm ?st] ok by blast
  then show ?thesis
    by (intro exI [of _ st']) (simp add: scrape_by_month_def loop)
qed




lemma scrape_month_existing:
  "map_of (files st) (csv_path y m) = Some df \<Longrightarrow>
   scrape_month gm y m st =
     (st \<lparr> total := total st + length df,
           monthly_counts := monthly_counts st @ [(year_month y m, length df)] \<rparr>, None)"
  by (simp add: scrape_month_def)

lemma month_window_start: "month_window y m = Inr w \<Longrightarrow> fst w = Date y m 1"
  by (auto simp: month_window_def py_date_def split: sum.splits if_splits)

lemma nyt_get_all_requests:
  "\<exists>new. snd (nyt_get_all_articles_for_month net y m tr) = tr @ new \<and>
         list_all (\<lambda>r. req_begin_date r = Date y m 1) (requests new)"
proof (cases "month_window y m")
  case (Inl e)
  then show ?thesis
    by (intro exI [of _ "[]"])
       (simp add: nyt_get_all_articles_for_month_def nyt_search_trump_covid_comprehensive_def)
next
  case (Inr w)
  from nyt_get_all_run [OF Inr, of net tr] month_window_start [OF Inr]
  show ?thesis by (auto simp: list_all_iff)
qed

lemma guardian_get_all_requests:
  "\<exists>new. snd (guardian_get_all_articles_for_month net y m tr) = tr @ new \<and>
         list_all (\<lambda>r. req_begin_date r = Date y m 1) (requests new)"
proof (cases "month_window y m")
  case (Inl e)
  then show ?thesis
    by (intro exI [of _ "[]"]) (simp add: guardian_get_all_articles_for_month_def)
next
  case (Inr w)
  from guardian_get_all_run [OF Inr, of net tr] month_window_start [OF Inr]
  show ?thesis by (auto simp: list_all_iff)
qed

text \<open>What a stored month keeps through one loop body and through the loop.\<close>

lemma scrape_month_keeps:
  assumes gm: "\<And>y m tr. \<exists>new. snd (gm y m tr) = tr @ new \<and>
                 list_all (\<lambda>r. req_begin_date r = Date y m 1) (requests new)"
    and f: "map_of (files st) (csv_path y0 m0) = Some df0"
    and t: "list_all (\<lambda>r. req_begin_date r \<noteq> Date y0 m0 1) (requests (trace st))"
  shows "map_of (files (fst (scrape_month gm y m st))) (csv_path y0 m0) = Some df0 \<and>
         list_all (\<lambda>r. req_begin_date r \<noteq> Date y0 m0 1)
           (requests (trace (fst (scrape_month gm y m st))))"
proof (cases "map_of (files st) (csv_path y m)")
  case (Some df)
  with f t show ?thesis by (simp add: scrape_month_def)
next
  case None
  with f have ne: "csv_path y m \<noteq> csv_path y0 m0" by auto
  then have d: "Date y m 1 \<noteq> Date y0 m0 1" by auto
  obtain new where new: "snd (gm y m (trace st)) = trace st @ new"
      "list_all (\<lambda>r. req_begin_date r = Date y m 1) (requests new)"
    using gm [of y m "trace st"] by blast
  from new(2) d have "list_all (\<lambda>r. req_begin_date r \<noteq> Date y0 m0 1) (requests new)"
    by (induction new rule: requests.induct) auto
  with t have t': "list_all (\<lambda>r. req_begin_date r \<noteq> Date y0 m0 1) (requests (trace st @ new))"
    by (simp add: requests_append)
  obtain res tr' where g: "gm y m (trace st) = (res, tr')" by (cases "gm y m (trace st)") auto
  with new(1) have tr': "tr' = trace st @ new" by simp
  show ?thesis
    using None f t' ne
    by (cases res) (auto simp: scrape_month_def g tr' update_conv')
qed

lemma scrape_loop_keeps:
  "(\<And>y m tr. \<exists>new. snd (gm y m tr) = tr @ new \<and>
                 list_all (\<lambda>r. req_begin_date r = Date y m 1) (requests new)) \<Longrightarrow>
         map_of (files st) (csv_path y0 m0) = Some df0 \<Longrightarrow>
         list_all (\<lambda>r. req_begin_date r \<noteq> Date y0 m0 1) (requests (trace st)) \<Longrightarrow>
         map_of (files (fst (scrape_loop gm c e st))) (csv_path y0 m0) = Some df0 \<and>
         list_all (\<lambda>r. req_begin_date r \<noteq> Date y0 m0 1)
           (requests (trace (fst (scrape_loop gm c e st))))"
proof (induction gm c e st rule: scrape_loop.induct)
  case (1 gm c e st)
  note keep = scrape_month_keeps [of gm st y0 m0 df0 "year c" "month c", OF "1.prems"(1) "1.prems"(2,3)]
  show ?case
  proof (cases "date_le c e")
    case False
    with "1.prems" show ?thesis by (simp add: scrape_loop.simps [of gm c e st])
  next
    case True
    obtain st' r where sm: "scrape_month gm (year c) (month c) st = (st', r)"
      by (cases "scrape_month gm (year c) (month c) st") auto
    with keep have k: "map_of (files st') (csv_path y0 m0) = Some df0"
      "list_all (\<lambda>r. req_begin_date r \<noteq> Date y0 m0 1) (requests (trace st'))"
      by simp_all
    show ?thesis
    proof (cases r)
      case (Some err)
      with sm True k show ?thesis by (simp add: scrape_loop.simps [of gm c e st])
    next
      case None
      show ?thesis
      proof (cases "next_month c")
        case (Inl err)
        with sm None True k show ?thesis by (simp add: scrape_loop.simps [of gm c e st])
      next
        case (Inr n)
        from "1.IH" [OF True sm [unfolded None, symmetric] refl Inr "1.prems"(1) k]
        show ?thesis using sm None True Inr by (simp add: scrape_loop.simps [of gm c e st])
      qed
    qed
  qed
qed


text \<open>
  Claim C2. When the file of a month exists, the loop body takes the month's table
  from the file: the state it returns differs from the one it got only in the counters
  \<^verbatim>\<open>total\<close> and \<^verbatim>\<open>monthly_counts\<close>, which grow by the length of the file's table; the
  trace and the directory are the same, so no request is issued and no file is written.
  Over a whole run of either script, for any network and any range: a month whose file
  exists at the start still has the same file contents at the end, and no request of
  the run carries that month's window.
\<close>

theorem existing_month_is_skipped:
  "(map_of (files st) (csv_path y m) = Some df \<longrightarrow>
      scrape_month gm y m st =
        (st \<lparr> total := total st + length df,
              monthly_counts := monthly_counts st @ [(year_month y m, length df)] \<rparr>, None)) \<and>
   (map_of dir (csv_path y m) = Some ndf \<longrightarrow>
      map_of (files (fst (nyt_scrape_by_month net s e dir))) (csv_path y m) = Some ndf \<and>
      list_all (\<lambda>r. req_begin_date r \<noteq> Date y m 1)
        (requests (trace (fst (nyt_scrape_by_month net s e dir))))) \<and>
   (map_of gdir (csv_path y m) = Some gdf \<longrightarrow>
      map_of (files (fst (guardian_scrape_by_month gnet s e gdir))) (csv_path y m) = Some gdf \<and>
      list_all (\<lambda>r. req_begin_date r \<noteq> Date y m 1)
        (requests (trace (fst (guardian_scrape_by_month gnet s e gdir)))))"
proof -
  have a: "scrape_month gm y m st =
        (st \<lparr> total := total st + length df,
              monthly_counts := monthly_counts st @ [(year_month y m, length df)] \<rparr>, None)"
    if "map_of (files st) (csv_path y m) = Some df"
    using that by (rule scrape_month_existing)
  have b: "map_of (files (fst (nyt_scrape_by_month net s e dir))) (csv_path y m) = Some ndf \<and>
      list_all (\<lambda>r. req_begin_date r \<noteq> Date y m 1)
        (requests (trace (fst (nyt_scrape_by_month net s e dir))))"
    if "map_of dir (csv_path y m) = Some ndf"
    unfolding nyt_scrape_by_month_def scrape_by_month_def
    by (rule scrape_loop_keeps) (use that nyt_get_all_requests in simp_all)
  have c: "map_of (files (fst (guardian_scrape_by_month gnet s e gdir))) (csv_path y m) = Some gdf \<and>
      list_all (\<lambda>r. req_begin_date r \<noteq> Date y m 1)
        (requests (trace (fst (guardian_scrape_by_month gnet s e gdir))))"
    if "map_of gdir (csv_path y m) = Some gdf"
    unfolding guardian_scrape_by_month_def scrape_by_month_def
    by (rule scrape_loop_keeps) (use that guardian_get_all_requests in simp_all)
  from a b c show ?thesis by blast
qed

theorem existing_month_is_skipped_witness:
  "map_of [(''2020-01.csv'', [nyt_row_with (CStr ''u1'') CNone])] (csv_path 2020 1) =
     Some [nyt_row_with (CStr ''u1'') CNone] \<and>
   map_of (files (fst (nyt_scrape_by_month nyt_net_pages (Date 2020 1 1) (Date 2020 2 15)
                         [(''2020-01.csv'', [nyt_row_with (CStr ''u1'') CNone])])))
     (csv_path 2020 1) = Some [nyt_row_with (CStr ''u1'') CNone] \<and>
   list_all (\<lambda>r. req_begin_date r \<noteq> Date 2020 1 1)
     (requests (trace (fst (nyt_scrape_by_month nyt_net_pages (Date 2020 1 1) (Date 2020 2 15)
                              [(''2020-01.csv'', [nyt_row_with (CStr ''u1'') CNone])])))) \<and>
   scrape_month (nyt_get_all_articles_for_month nyt_net_pages) 2020 1
     \<lparr> files = [(''2020-01.csv'', [nyt_row_with (CStr ''u1'') CNone])], trace = [],
       total = 0, monthly_counts = [] \<rparr> =
     (\<lparr> files = [(''2020-01.csv'', [nyt_row_with (CStr ''u1'') CNone])], trace = [],
        total = 1, monthly_counts = [(''2020-01'', 1)] \<rparr>, None)"
proof -
  let ?dir = "[(''2020-01.csv'', [nyt_row_with (CStr ''u1'') CNone])]"
  let ?st = "\<lparr> files = ?dir, trace = [], total = 0, monthly_counts = [] \<rparr> :: nyt_row driver"
  have p: "csv_path 2020 1 = ''2020-01.csv''"
    by (simp add: csv_path_def year_month_def str_int_def pad2_def str_nat.simps digit_char_def)
  have ym: "year_month 2020 1 = ''2020-01''"
    by (simp add: year_month_def str_int_def pad2_def str_nat.simps digit_char_def)
  have h: "map_of ?dir (csv_path 2020 1) = Some [nyt_row_with (CStr ''u1'') CNone]"
    by (simp add: p)
  then have h': "map_of (files ?st) (csv_path 2020 1) = Some [nyt_row_with (CStr ''u1'') CNone]"
    by simp
  note t = existing_month_is_skipped
      [where dir = ?dir and y = 2020 and m = 1 and ndf = "[nyt_row_with (CStr ''u1'') CNone]"
         and net = nyt_net_pages and s = "Date 2020 1 1" and e = "Date 2020 2 15"
         and st = ?st and df = "[nyt_row_with (CStr ''u1'') CNone]"
         and gm = "nyt_get_all_articles_for_month nyt_net_pages"]
  from t h' have
    "scrape_month (nyt_get_all_articles_for_month nyt_net_pages) 2020 1 ?st =
       (?st \<lparr> total := total ?st + length [nyt_row_with (CStr ''u1'') CNone],
              monthly_counts := monthly_counts ?st @
                [(year_month 2020 1, length [nyt_row_with (CStr ''u1'') CNone])] \<rparr>, None)"
    by blast
  then have sm:
    "scrape_month (nyt_get_all_articles_for_month nyt_net_pages) 2020 1 ?st =
       (\<lparr> files = ?dir, trace = [], total = 1, monthly_counts = [(''2020-01'', 1)] \<rparr>, None)"
    by (simp add: ym)
  from h sm t show ?thesis by blast
qed

section \<open>Failed requests: properties\<close>

lemma search_single_failed:
  "request_failed (net tr (request_for Single w page)) \<Longrightarrow>
   search_single src net w page tr =
     (None, tr @ [Get (request_for Single w page) (reply_status (net tr (request_for Single w page)))])"
  by (cases "net tr (request_for Single w page)")
     (auto simp: search_single_def request_for_def)

lemma query_step_failed:
  "request_failed (net (if 0 < i then tr @ [Sleep (query_delay src)] else tr)
                      (request_for qu w page)) \<Longrightarrow>
   query_step src net w page (i, qu) (ds, seen, tr) =
     (ds, seen,
      (if 0 < i then tr @ [Sleep (query_delay src)] else tr) @
        [Get (request_for qu w page)
           (reply_status (net (if 0 < i then tr @ [Sleep (query_delay src)] else tr)
                            (request_for qu w page)))])"
  by (cases "net (if 0 < i then tr @ [Sleep (query_delay src)] else tr) (request_for qu w page)")
     (auto simp: query_step_def request_for_def Let_def)

text \<open>
  Claim C7, as the code has it. A request that raises, or that is answered with a
  status other than 200 and 429, gives no data and no exception: the single fetch
  returns \<^verbatim>\<open>None\<close>, and an iteration of the multi-query loop leaves the accumulated
  documents as they were. The multi-query pass issues all five queries whatever the
  replies. Once the month's window exists, neither fetch function nor the month's fetch
  raises. In the pagination pass a failed page ends the pagination: the rows collected
  so far are returned and no later page is requested. For every network, the driver
  runs through all the months of the range and ends without an exception.
\<close>

theorem request_failure_never_aborts:
  "(request_failed (net tr (request_for Single w page)) \<longrightarrow>
      search_single src net w page tr =
        (None, tr @ [Get (request_for Single w page)
                       (reply_status (net tr (request_for Single w page)))])) \<and>
   (request_failed (net (if 0 < i then tr @ [Sleep (query_delay src)] else tr)
                        (request_for qu w page)) \<longrightarrow>
      query_step src net w page (i, qu) (ds, seen, tr) =
        (ds, seen,
         (if 0 < i then tr @ [Sleep (query_delay src)] else tr) @
           [Get (request_for qu w page)
              (reply_status (net (if 0 < i then tr @ [Sleep (query_delay src)] else tr)
                               (request_for qu w page)))])) \<and>
   (\<exists>new r. search_comprehensive src net w page tr = (r, tr @ new) \<and>
      requests new = map (\<lambda>qu. request_for qu w page) queries) \<and>
   (month_window y m = Inr w \<longrightarrow>
      nyt_search_trump_covid_single nnet y m page ntr =
        (Inr (fst (search_single nyt_source nnet w page ntr)),
         snd (search_single nyt_source nnet w page ntr)) \<and>
      nyt_search_trump_covid_comprehensive nnet y m page ntr =
        (Inr (fst (search_comprehensive nyt_source nnet w page ntr)),
         snd (search_comprehensive nyt_source nnet w page ntr)) \<and>
      (request_failed (nnet (ntr @ [Sleep 7]) (request_for Single w p)) \<longrightarrow>
         nyt_pagination nnet y m (p # ps) acc ntr =
           (Inr acc, ntr @ [Sleep 7, Get (request_for Single w p)
                                       (reply_status (nnet (ntr @ [Sleep 7])
                                                        (request_for Single w p)))])) \<and>
      (\<exists>new rows. nyt_get_all_articles_for_month nnet y m ntr = (Inr rows, ntr @ new)) \<and>
      (\<exists>new rows. guardian_get_all_articles_for_month gnet y m gtr = (Inr rows, gtr @ new))) \<and>
   (p \<le> 20 \<and> request_failed (gnet (gtr @ [Sleep 1]) (request_for Single gw p)) \<longrightarrow>
      guardian_pagination gnet gw p gacc gtr =
        (gacc, gtr @ [Sleep 1, Get (request_for Single gw p)
                                 (reply_status (gnet (gtr @ [Sleep 1])
                                                  (request_for Single gw p)))])) \<and>
   (valid_date s \<and> valid_date e \<and> date_le s e \<and> \<not> (year e = 9999 \<and> month e = 12) \<longrightarrow>
      (\<exists>st'. nyt_scrape_by_month nnet s e dir = (st', None) \<and>
         map fst (monthly_counts st') = map (\<lambda>(y, m). year_month y m) (months_between s e)) \<and>
      (\<exists>st'. guardian_scrape_by_month gnet s e gdir = (st', None) \<and>
         map fst (monthly_counts st') = map (\<lambda>(y, m). year_month y m) (months_between s e)))"
proof -
  have c: "\<exists>new r. search_comprehensive src net w page tr = (r, tr @ new) \<and>
      requests new = map (\<lambda>qu. request_for qu w page) queries"
    using search_comprehensive_run [of src net w page tr] by blast
  have d: "nyt_search_trump_covid_single nnet y m page ntr =
        (Inr (fst (search_single nyt_source nnet w page ntr)),
         snd (search_single nyt_source nnet w page ntr)) \<and>
      nyt_search_trump_covid_comprehensive nnet y m page ntr =
        (Inr (fst (search_comprehensive nyt_source nnet w page ntr)),
         snd (search_comprehensive nyt_source nnet w page ntr))"
    if "month_window y m = Inr w"
    by (simp add: nyt_search_trump_covid_single_def nyt_search_trump_covid_comprehensive_def
          that split: prod.splits)
  have e: "nyt_pagination nnet y m (p # ps) acc ntr =
           (Inr acc, ntr @ [Sleep 7, Get (request_for Single w p)
                                       (reply_status (nnet (ntr @ [Sleep 7])
                                                        (request_for Single w p)))])"
    if "month_window y m = Inr w"
       "request_failed (nnet (ntr @ [Sleep 7]) (request_for Single w p))"
    using search_single_failed [of nnet "ntr @ [Sleep 7]" w p nyt_source, OF that(2)]
    by (simp add: nyt_search_trump_covid_single_def that(1) nyt_truthy_def)
  have f: "\<exists>new rows. nyt_get_all_articles_for_month nnet y m ntr = (Inr rows, ntr @ new)"
    if "month_window y m = Inr w"
    using nyt_get_all_run [OF that, of nnet ntr] by blast
  have g: "\<exists>new rows. guardian_get_all_articles_for_month gnet y m gtr = (Inr rows, gtr @ new)"
    if "month_window y m = Inr w"
    using guardian_get_all_run [OF that, of gnet gtr] by blast
  have h: "guardian_pagination gnet gw p gacc gtr =
        (gacc, gtr @ [Sleep 1, Get (request_for Single gw p)
                                 (reply_status (gnet (gtr @ [Sleep 1])
                                                  (request_for Single gw p)))])"
    if "p \<le> 20" "request_failed (gnet (gtr @ [Sleep 1]) (request_for Single gw p))"
    using search_single_failed [of gnet "gtr @ [Sleep 1]" gw p guardian_source, OF that(2)] that(1)
    by (simp add: guardian_pagination.simps [of gnet gw p] max_pages_def guardian_truthy_def
          del: One_nat_def)
  have k: "(\<exists>st'. nyt_scrape_by_month nnet s e dir = (st', None) \<and>
         map fst (monthly_counts st') = map (\<lambda>(y, m). year_month y m) (months_between s e)) \<and>
      (\<exists>st'. guardian_scrape_by_month gnet s e gdir = (st', None) \<and>
         map fst (monthly_counts st') = map (\<lambda>(y, m). year_month y m) (months_between s e))"
    if v: "valid_date s" "valid_date e" "date_le s e" "\<not> (year e = 9999 \<and> month e = 12)"
  proof -
    have 1: "\<exists>st'. nyt_scrape_by_month nnet s e dir = (st', None) \<and>
         map fst (monthly_counts st') = map (\<lambda>(y, m). year_month y m) (months_between s e)"
      unfolding nyt_scrape_by_month_def
    proof (rule backfill_run [OF v])
      fix y m w tr assume "month_window y m = Inr w"
      from nyt_get_all_run [OF this, of nnet tr]
      show "\<exists>df tr'. nyt_get_all_articles_for_month nnet y m tr = (Inr df, tr')" by blast
    qed
    have 2: "\<exists>st'. guardian_scrape_by_month gnet s e gdir = (st', None) \<and>
         map fst (monthly_counts st') = map (\<lambda>(y, m). year_month y m) (months_between s e)"
      unfolding guardian_scrape_by_month_def
    proof (rule backfill_run [OF v])
      fix y m w tr assume "month_window y m = Inr w"
      from guardian_get_all_run [OF this, of gnet tr]
      show "\<exists>df tr'. guardian_get_all_articles_for_month gnet y m tr = (Inr df, tr')" by blast
    qed
    from 1 2 show ?thesis by blast
  qed
  from search_single_failed [of net tr w page src] query_step_failed [of net i tr src qu w page ds seen]
    c d e f g h k
  show ?thesis by blast
qed


theorem request_failure_never_aborts_witness:
  "request_failed (nyt_net_500 [] (request_for Single (Date 2020 1 1, Date 2020 1 31) 1)) \<and>
   search_single nyt_source nyt_net_500 (Date 2020 1 1, Date 2020 1 31) 1 [] =
     (None, [Get (request_for Single (Date 2020 1 1, Date 2020 1 31) 1) (Some 500)]) \<and>
   month_window 2020 1 = Inr (Date 2020 1 1, Date 2020 1 31) \<and>
   nyt_pagination nyt_net_500 2020 1 [1, 2] [] [] =
     (Inr [], [Sleep 7, Get (request_for Single (Date 2020 1 1, Date 2020 1 31) 1) (Some 500)]) \<and>
   guardian_pagination guardian_net_failing (Date 2020 1 1, Date 2020 1 31) 1 [] [] =
     ([], [Sleep 1, Get (request_for Single (Date 2020 1 1, Date 2020 1 31) 1) (Some 500)]) \<and>
   valid_date (Date 2020 11 15) \<and> valid_date (Date 2021 1 20) \<and>
   date_le (Date 2020 11 15) (Date 2021 1 20) \<and>
   (\<exists>st'. nyt_scrape_by_month nyt_net_500 (Date 2020 11 15) (Date 2021 1 20) [] = (st', None) \<and>
      map fst (monthly_counts st') = [''2020-11'', ''2020-12'', ''2021-01'']) \<and>
   (\<exists>st'. guardian_scrape_by_month guardian_net_failing (Date 2020 11 15) (Date 2021 1 20) [] =
            (st', None) \<and>
      map fst (monthly_counts st') = [''2020-11'', ''2020-12'', ''2021-01''])"
proof -
  let ?w = "(Date 2020 1 1, Date 2020 1 31)"
  let ?s = "Date 2020 11 15" and ?e = "Date 2021 1 20"
  have f: "request_failed (nyt_net_500 [] (request_for Single ?w 1))"
    by (simp add: nyt_net_500_def request_for_def)
  have f7: "request_failed (nyt_net_500 ([] @ [Sleep 7]) (request_for Single ?w 1))"
    by (simp add: nyt_net_500_def request_for_def)
  have g: "request_failed (guardian_net_failing ([] @ [Sleep 1]) (request_for Single ?w 1))"
    by (simp add: guardian_net_failing_def)
  have s5: "reply_status (nyt_net_500 h (request_for Single ?w 1)) = Some 500" for h
    by (simp add: nyt_net_500_def request_for_def)
  have g5: "reply_status (guardian_net_failing h r) = Some 500" for h r
    by (simp add: guardian_net_failing_def)
  have v: "valid_date ?s" "valid_date ?e" "date_le ?s ?e"
      "\<not> (year ?e = 9999 \<and> month ?e = 12)"
    by (simp_all add: valid_date_def days_in_month_def date_le_def)
  have le: "(1 :: int) \<le> 20" by simp
  have mb: "months_between ?s ?e = [(2020, 11), (2020, 12), (2021, 1)]"
    by code_simp
  have names: "map (\<lambda>(y, m). year_month y m) [(2020, 11), (2020, 12), (2021, 1)] =
                 [''2020-11'', ''2020-12'', ''2021-01'']"
    by (simp add: year_month_def str_int_def pad2_def str_nat.simps digit_char_def)
  note t = request_failure_never_aborts
             [where net = nyt_net_500 and tr = "[]" and w = ?w and page = 1 and src = nyt_source
                and y = 2020 and m = 1 and nnet = nyt_net_500 and ntr = "[]" and p = 1
                and ps = "[2]" and acc = "[]" and gnet = guardian_net_failing and gtr = "[]"
                and gw = ?w and gacc = "[]" and s = ?s and e = ?e and dir = "[]"
                and gdir = "[]"]
  from t f have 1:
    "search_single nyt_source nyt_net_500 ?w 1 [] =
       (None, [Get (request_for Single ?w 1) (Some 500)])"
    by (simp add: s5)
  from t month_window_2020_1 f7 have 2:
    "nyt_pagination nyt_net_500 2020 1 [1, 2] [] [] =
       (Inr [], [Sleep 7, Get (request_for Single ?w 1) (Some 500)])"
    by (simp add: s5)
  from t le g have 3:
    "guardian_pagination guardian_net_failing ?w 1 [] [] =
       ([], [Sleep 1, Get (request_for Single ?w 1) (Some 500)])"
    by (simp add: g5)
  from t v have
    "(\<exists>st'. nyt_scrape_by_month nyt_net_500 ?s ?e [] = (st', None) \<and>
       map fst (monthly_counts st') = map (\<lambda>(y, m). year_month y m) (months_between ?s ?e)) \<and>
     (\<exists>st'. guardian_scrape_by_month guardian_net_failing ?s ?e [] = (st', None) \<and>
       map fst (monthly_counts st') = map (\<lambda>(y, m). year_month y m) (months_between ?s ?e))"
    by blast
  then have 4:
    "(\<exists>st'. nyt_scrape_by_month nyt_net_500 ?s ?e [] = (st', None) \<and>
       map fst (monthly_counts st') = [''2020-11'', ''2020-12'', ''2021-01'']) \<and>
     (\<exists>st'. guardian_scrape_by_month guardian_net_failing ?s ?e [] = (st', None) \<and>
       map fst (monthly_counts st') = [''2020-11'', ''2020-12'', ''2021-01''])"
    unfolding mb names .
  from f 1 month_window_2020_1 2 3 v(1,2,3) 4 show ?thesis by blast
qed

text \<open>
  Claim C7 as stated fails on the pagination pass: with page 1 answered by HTTP 500 the
  NYTimes fetch never requests page 2, which the same network would serve and which is
  requested when page 1 is served.
\<close>

theorem failed_page_ends_pagination_counterexample:
  "request_failed (nyt_net_500 [] (request_for Single (Date 2020 1 1, Date 2020 1 31) 1)) \<and>
   map req_page (requests (snd (nyt_get_all_articles_for_month nyt_net_500 2020 1 []))) =
     [0, 0, 0, 0, 0, 1] \<and>
   map req_page (requests (snd (nyt_get_all_articles_for_month nyt_net_pages 2020 1 []))) =
     [0, 0, 0, 0, 0, 1, 2] \<and>
   nyt_net_500 [] (request_for Single (Date 2020 1 1, Date 2020 1 31) 2) =
     nyt_net_pages [] (request_for Single (Date 2020 1 1, Date 2020 1 31) 2)"
proof -
  have f: "request_failed (nyt_net_500 [] (request_for Single (Date 2020 1 1, Date 2020 1 31) 1))"
    by (simp add: nyt_net_500_def request_for_def)
  have a: "map req_page (requests (snd (nyt_get_all_articles_for_month nyt_net_500 2020 1 []))) =
     [0, 0, 0, 0, 0, 1]"
    by code_simp
  have b: "map req_page (requests (snd (nyt_get_all_articles_for_month nyt_net_pages 2020 1 []))) =
     [0, 0, 0, 0, 0, 1, 2]"
    by code_simp
  have c: "nyt_net_500 [] (request_for Single (Date 2020 1 1, Date 2020 1 31) 2) =
     nyt_net_pages [] (request_for Single (Date 2020 1 1, Date 2020 1 31) 2)"
    by (simp add: nyt_net_500_def request_for_def)
  from f a b c show ?thesis by blast
qed

section \<open>The Combined Dataset: properties\<close>

lemma drop_duplicates_keys: "set (map key (drop_duplicates key xs)) = set (map key xs)"
  using drop_duplicates_from_keys [of key "{}" xs] by (simp add: drop_duplicates_def)

text \<open>
  What the end of both scripts computes when it returns a table: the keys are those of
  every \<^verbatim>\<open>.csv\<close> file of the output directory, each once, the row of a key is the first
  one in the concatenation of the files in sorted name order, and the rows are sorted by
  timestamp, later first.
\<close>

lemma combine_all_files_result:
  assumes "combine_all_files key to_datetime dir = Inr (Some rows)"
  shows "distinct (map key rows) \<and>
         set (map key rows) = set (map key (concat (map (read_csv dir) (sort (glob_csv dir))))) \<and>
         sorted (map (\<lambda>r. case stamp_of to_datetime r of Some t \<Rightarrow> (0 :: nat, - t) | None \<Rightarrow> (1, 0))
                   rows) \<and>
         (\<forall>k. find (\<lambda>r. key r = k) (drop_duplicates key (concat (map (read_csv dir) (sort (glob_csv dir))))) =
              find (\<lambda>r. key r = k) (concat (map (read_csv dir) (sort (glob_csv dir)))))"
proof -
  let ?all = "concat (map (read_csv dir) (sort (glob_csv dir)))"
  let ?dd = "drop_duplicates key ?all"
  from assms have rows: "rows = sort_values_desc (stamp_of to_datetime) ?dd"
    by (auto simp: combine_all_files_def Let_def split: if_splits option.splits)
  have d: "distinct (map key ?dd)"
    unfolding drop_duplicates_def by (rule drop_duplicates_from_distinct)
  then have "distinct (map key rows)"
    unfolding rows sort_values_desc_def by (simp add: distinct_map)
  moreover have "set (map key rows) = set (map key ?all)"
    unfolding rows sort_values_desc_def using drop_duplicates_keys [of key ?all] by simp
  moreover have "sorted (map (\<lambda>r. case stamp_of to_datetime r of Some t \<Rightarrow> (0 :: nat, - t)
                                   | None \<Rightarrow> (1, 0)) rows)"
    unfolding rows sort_values_desc_def by (rule sorted_sort_key)
  moreover have "find (\<lambda>r. key r = k) ?dd = find (\<lambda>r. key r = k) ?all" for k
    unfolding drop_duplicates_def by (rule drop_duplicates_from_find) simp
  ultimately show ?thesis by blast
qed

text \<open>
  Claim C3 fails on the code. The scripts write \<^verbatim>\<open>combined.csv\<close> into the directory of
  the monthly files and read every \<^verbatim>\<open>*.csv\<close> of that directory, so the combined file of
  an earlier run is read with the monthly files. With one monthly file holding \<^verbatim>\<open>u1\<close>
  and an earlier \<^verbatim>\<open>combined.csv\<close> holding \<^verbatim>\<open>u4\<close>, a key of no monthly file, the new
  combined table holds \<^verbatim>\<open>u4\<close> and \<^verbatim>\<open>u1\<close>; from the monthly file alone it holds \<^verbatim>\<open>u1\<close>.
\<close>

theorem combined_dataset_reads_old_combined_file:
  "glob_csv [(''2020-01.csv'', [nyt_row_with (CStr ''u1'') (CInt 5)]),
             (''combined.csv'', [nyt_row_with (CStr ''u4'') (CInt 9)])] =
     [''2020-01.csv'', ''combined.csv''] \<and>
   combine_all_files row_web_url sample_to_datetime
     [(''2020-01.csv'', [nyt_row_with (CStr ''u1'') (CInt 5)]),
      (''combined.csv'', [nyt_row_with (CStr ''u4'') (CInt 9)])] =
     Inr (Some [nyt_row_with (CStr ''u4'') (CInt 9), nyt_row_with (CStr ''u1'') (CInt 5)]) \<and>
   combine_all_files row_web_url sample_to_datetime
     [(''2020-01.csv'', [nyt_row_with (CStr ''u1'') (CInt 5)])] =
     Inr (Some [nyt_row_with (CStr ''u1'') (CInt 5)])"
proof -
  have a: "glob_csv [(''2020-01.csv'', [nyt_row_with (CStr ''u1'') (CInt 5)]),
             (''combined.csv'', [nyt_row_with (CStr ''u4'') (CInt 9)])] =
     [''2020-01.csv'', ''combined.csv'']"
    by (simp add: glob_csv_def is_csv_def)
  have b: "combine_all_files row_web_url sample_to_datetime
     [(''2020-01.csv'', [nyt_row_with (CStr ''u1'') (CInt 5)]),
      (''combined.csv'', [nyt_row_with (CStr ''u4'') (CInt 9)])] =
     Inr (Some [nyt_row_with (CStr ''u4'') (CInt 9), nyt_row_with (CStr ''u1'') (CInt 5)])"
    by code_simp
  have c: "combine_all_files row_web_url sample_to_datetime
     [(''2020-01.csv'', [nyt_row_with (CStr ''u1'') (CInt 5)])] =
     Inr (Some [nyt_row_with (CStr ''u1'') (CInt 5)])"
    by code_simp
  from a b c show ?thesis by blast
qed

section \<open>Identity keys of retained articles\<close>

text \<open>
  Claim C8 fails on the code. A document of a pagination page that has no \<^verbatim>\<open>web_url\<close>
  is parsed to a row whose \<^verbatim>\<open>web_url\<close> is the empty string (the default that
  \<^verbatim>\<open>parse_articles\<close> gives to \<^verbatim>\<open>doc.get\<close>), and \<^verbatim>\<open>drop_duplicates\<close> keeps it: the
  month's table holds a row with an empty identity key. The loop of the multi-query pass drops the same
  document (\<^verbatim>\<open>if url and url not in seen_urls\<close>).
\<close>

theorem pagination_row_without_url_is_retained:
  "fst (nyt_get_all_articles_for_month nyt_net_no_url 2020 1 []) =
     Inr [nyt_row_with (CStr []) (CStr ''2020-01-05'')] \<and>
   row_web_url (nyt_row_with (CStr []) (CStr ''2020-01-05'')) = CStr [] \<and>
   fst (merge_docs (key_of nyt_source) [nyt_doc_with Absent (Val ''2020-01-05'')] ([], {})) = []"
proof -
  have a: "fst (nyt_get_all_articles_for_month nyt_net_no_url 2020 1 []) =
     Inr [nyt_row_with (CStr []) (CStr ''2020-01-05'')]"
    by code_simp
  have b: "row_web_url (nyt_row_with (CStr []) (CStr ''2020-01-05'')) = CStr []"
    by (simp add: nyt_row_with_def)
  have c: "fst (merge_docs (key_of nyt_source) [nyt_doc_with Absent (Val ''2020-01-05'')] ([], {})) = []"
    by (simp add: nyt_source_def nyt_doc_with_def)
  from a b c show ?thesis by blast
qed

end
